(* ===== verification/Prelude.thy ===== *)
theory Prelude
  imports Main "HOL-Library.Word" "HOL-Library.Signed_Division"
begin

text \<open>
  The vocabulary the components share: bytes and machine words, checked memory reads
  (a read past the allocation is the fault \<open>OobRead\<close>), the byte order of the one
  supported ABI (arm64-v8a: little endian, 64 bit \<open>size_t\<close>, unsigned \<open>char\<close>), and the
  result type \<open>fault + 'a\<close> with its sequencing operator \<open>rbind\<close>.
\<close>

unbundle bit_operations_syntax

section \<open>Types\<close>

type_synonym byte = "8 word"
type_synonym u16 = "16 word"
type_synonym u32 = "32 word"
type_synonym u64 = "64 word"
type_synonym bytes = "byte list"

text \<open>
  What a run of the C code can end in, beside a value: a read or a write outside the
  object, or a loop that never ends.
\<close>

datatype fault = OobRead | OobWrite | Hang

type_synonym 'a result = "fault + 'a"

named_theorems result_simps \<open>evaluation of \<open>result\<close> values\<close>
named_theorems mem_simps \<open>loads, stores and byte order\<close>
named_theorems len_simps \<open>lengths of stored objects\<close>

section \<open>Sequencing fallible steps\<close>

definition rbind :: "'a result \<Rightarrow> ('a \<Rightarrow> 'b result) \<Rightarrow> 'b result" where
  "rbind m f = (case m of Inl e \<Rightarrow> Inl e | Inr x \<Rightarrow> f x)"

lemma rbind_Inl [simp, result_simps]: "rbind (Inl e) f = Inl e"
  by (simp add: rbind_def)

lemma rbind_Inr [simp, result_simps]: "rbind (Inr x) f = f x"
  by (simp add: rbind_def)

lemma rbind_eq_Inr: "rbind m f = Inr y \<longleftrightarrow> (\<exists>x. m = Inr x \<and> f x = Inr y)"
  by (cases m) auto

lemma rbind_assoc: "rbind (rbind m f) g = rbind m (\<lambda>x. rbind (f x) g)"
  by (cases m) auto

lemma rbind_cong [fundef_cong]:
  "m = n \<Longrightarrow> (\<And>x. n = Inr x \<Longrightarrow> f x = g x) \<Longrightarrow> rbind m f = rbind n g"
  by (cases n) auto

text \<open>The result of a loop in \<open>option\<close> form: \<open>None\<close> is a loop that does not end.\<close>

definition returned :: "'a result option \<Rightarrow> 'a result" where
  "returned r = (case r of None \<Rightarrow> Inl Hang | Some v \<Rightarrow> v)"

lemma returned_simps [simp, result_simps]:
  "returned None = Inl Hang" "returned (Some v) = v"
  by (simp_all add: returned_def)

section \<open>Memory\<close>

text \<open>
  A pointer into an object is the list of the bytes from there to the end of the object,
  so \<open>p + n\<close> is \<open>drop n p\<close> and \<open>p[i]\<close> is \<open>rd p i\<close>.
\<close>

definition rd :: "bytes \<Rightarrow> nat \<Rightarrow> byte result" where
  "rd p i = (if i < length p then Inr (p ! i) else Inl OobRead)"

lemma rd_in [simp]: "i < length p \<Longrightarrow> rd p i = Inr (p ! i)"
  by (simp add: rd_def)

lemma rd_out [simp]: "length p \<le> i \<Longrightarrow> rd p i = Inl OobRead"
  by (simp add: rd_def)

lemma rd_eq_Inr: "rd p i = Inr b \<longleftrightarrow> i < length p \<and> p ! i = b"
  by (auto simp: rd_def)

lemma rd_drop: "rd (drop n p) i = rd p (n + i)"
  by (cases "n \<le> length p") (auto simp: rd_def less_diff_conv add.commute)

text \<open>\<open>memcpy\<close> of \<open>n\<close> bytes from \<open>p\<close>: the bytes, if all of them lie in the object.\<close>

definition rd_bytes :: "bytes \<Rightarrow> nat \<Rightarrow> nat \<Rightarrow> bytes result" where
  "rd_bytes p i n = (if i + n \<le> length p then Inr (take n (drop i p)) else Inl OobRead)"

lemma rd_bytes_in [simp]: "i + n \<le> length p \<Longrightarrow> rd_bytes p i n = Inr (take n (drop i p))"
  by (simp add: rd_bytes_def)

lemma rd_bytes_out: "length p < i + n \<Longrightarrow> rd_bytes p i n = Inl OobRead"
  by (simp add: rd_bytes_def)

lemma rd_bytes_eq_Inr:
  "rd_bytes p i n = Inr bs \<longleftrightarrow> i + n \<le> length p \<and> bs = take n (drop i p)"
  by (auto simp: rd_bytes_def)

lemma rd_append_right: "rd (xs @ ys) (length xs + i) = rd ys i"
  by (simp add: rd_def nth_append)

text \<open>\<open>memcpy\<close> of \<open>bs\<close> to \<open>p + i\<close>, if all of it lies in the object.\<close>

definition wr_bytes :: "bytes \<Rightarrow> nat \<Rightarrow> bytes \<Rightarrow> bytes result" where
  "wr_bytes p i bs =
     (if i + length bs \<le> length p then Inr (take i p @ bs @ drop (i + length bs) p) else Inl OobWrite)"

lemma wr_bytes_in [simp]:
  "i + length bs \<le> length p \<Longrightarrow> wr_bytes p i bs = Inr (take i p @ bs @ drop (i + length bs) p)"
  by (simp add: wr_bytes_def)

lemma wr_bytes_out: "length p < i + length bs \<Longrightarrow> wr_bytes p i bs = Inl OobWrite"
  by (simp add: wr_bytes_def)

lemma wr_bytes_length: "wr_bytes p i bs = Inr q \<Longrightarrow> length q = length p"
  by (auto simp: wr_bytes_def split: if_splits)

lemma wr_bytes_take: "wr_bytes p i bs = Inr q \<Longrightarrow> take (i + length bs) q = take i p @ bs"
  by (auto simp: wr_bytes_def split: if_splits)

text \<open>\<open>strncpy\<close> reads at most \<open>n\<close> bytes and stops behind a NUL.\<close>

fun strncpy_src :: "bytes \<Rightarrow> nat \<Rightarrow> bytes result" where
  "strncpy_src p 0 = Inr []"
| "strncpy_src [] (Suc n) = Inl OobRead"
| "strncpy_src (b # p) (Suc n) =
     (if b = 0 then Inr [] else rbind (strncpy_src p n) (\<lambda>s. Inr (b # s)))"

lemma strncpy_src_in:
  "n \<le> length p \<Longrightarrow> strncpy_src p n = Inr (takeWhile (\<lambda>b. b \<noteq> 0) (take n p))"
  by (induction p n rule: strncpy_src.induct) auto

text \<open>A 16 bit length in network order, read byte by byte.\<close>

definition be16 :: "nat \<Rightarrow> bytes" where
  "be16 n = [of_nat (n div 256), of_nat (n mod 256)]"

definition be16_at :: "byte \<Rightarrow> byte \<Rightarrow> nat" where
  "be16_at hi lo = 256 * unat hi + unat lo"

lemma length_be16 [simp, len_simps]: "length (be16 n) = 2"
  by (simp add: be16_def)

lemma be16_at_be16: "n < 65536 \<Longrightarrow> be16_at (of_nat (n div 256)) (of_nat (n mod 256)) = n"
  by (simp add: be16_at_def unsigned_of_nat take_bit_nat_eq_self)

text \<open>\<open>size_t\<close> subtraction wraps at the 64 bit width.\<close>

definition size_sub :: "nat \<Rightarrow> nat \<Rightarrow> nat" where
  "size_sub a b = (if b \<le> a then a - b else a + 2 ^ 64 - b)"

lemma size_sub_le [simp]: "b \<le> a \<Longrightarrow> size_sub a b = a - b"
  by (simp add: size_sub_def)

text \<open>\<open>#define MTU 10000\<close> of \<open>tun2http.h\<close>.\<close>

definition MTU :: nat where "MTU = 10000"

section \<open>Byte order\<close>

text \<open>Native (little endian) 16 and 32 bit loads and stores, and the host/network swaps.\<close>

definition ld16 :: "byte \<Rightarrow> byte \<Rightarrow> u16" where
  "ld16 b0 b1 = ucast b0 OR push_bit 8 (ucast b1)"

definition st16 :: "u16 \<Rightarrow> bytes" where
  "st16 w = [ucast w, ucast (drop_bit 8 w)]"

definition ntohs :: "u16 \<Rightarrow> u16" where
  "ntohs w = push_bit 8 w OR drop_bit 8 w"

definition htons :: "u16 \<Rightarrow> u16" where
  "htons w = ntohs w"

definition ld32 :: "byte \<Rightarrow> byte \<Rightarrow> byte \<Rightarrow> byte \<Rightarrow> u32" where
  "ld32 b0 b1 b2 b3 =
     ucast b0 OR push_bit 8 (ucast b1) OR push_bit 16 (ucast b2) OR push_bit 24 (ucast b3)"

definition st32 :: "u32 \<Rightarrow> bytes" where
  "st32 w = [ucast w, ucast (drop_bit 8 w), ucast (drop_bit 16 w), ucast (drop_bit 24 w)]"

definition ntohl :: "u32 \<Rightarrow> u32" where
  "ntohl w = push_bit 24 w OR (push_bit 8 w AND 0xFF0000) OR (drop_bit 8 w AND 0xFF00)
             OR drop_bit 24 w"

definition htonl :: "u32 \<Rightarrow> u32" where
  "htonl w = ntohl w"

lemma bit_byte_out [simp]: "8 \<le> n \<Longrightarrow> bit (b :: byte) n \<longleftrightarrow> False"
  by (auto dest: bit_imp_le_length)

lemma bit_u16_out [simp]: "16 \<le> n \<Longrightarrow> bit (w :: u16) n \<longleftrightarrow> False"
  by (auto dest: bit_imp_le_length)

lemma ld16_st16 [mem_simps]: "ld16 (ucast w) (ucast (drop_bit 8 w)) = w"
  by (rule bit_word_eqI) (auto simp: ld16_def bit_simps dest: bit_imp_le_length)

lemma st16_ld16 [mem_simps]: "st16 (ld16 a b) = [a, b]"
  by (auto simp: st16_def ld16_def bit_simps intro!: bit_word_eqI)

lemma ntohs_ntohs [simp]: "ntohs (ntohs w) = w"
  by (rule bit_word_eqI) (auto simp: ntohs_def bit_simps)

lemma ntohs_htons [simp]: "ntohs (htons w) = w" and htons_ntohs [simp]: "htons (ntohs w) = w"
  by (simp_all add: htons_def)

lemma ntohs_ld16: "ntohs (ld16 a b) = ld16 b a"
  by (rule bit_word_eqI) (auto simp: ntohs_def ld16_def bit_simps)

lemma ld32_st32 [mem_simps]:
  "ld32 (ucast w) (ucast (drop_bit 8 w)) (ucast (drop_bit 16 w)) (ucast (drop_bit 24 w)) = w"
proof (rule bit_word_eqI)
  fix n assume "n < LENGTH(32)"
  then consider "n < 8" | "8 \<le> n" "n < 16" | "16 \<le> n" "n < 24" | "24 \<le> n" "n < 32"
    by fastforce
  then show "bit (ld32 (ucast w) (ucast (drop_bit 8 w)) (ucast (drop_bit 16 w))
      (ucast (drop_bit 24 w))) n = bit w n"
    by cases (auto simp: ld32_def bit_simps)
qed

lemma st32_ld32 [mem_simps]: "st32 (ld32 a b c d) = [a, b, c, d]"
  by (auto simp: st32_def ld32_def bit_simps intro!: bit_word_eqI)

lemma ntohl_ntohl [simp]: "ntohl (ntohl w) = w"
proof (rule bit_word_eqI)
  have m: "(0xFF0000 :: u32) = push_bit 16 (mask 8)" "(0xFF00 :: u32) = push_bit 8 (mask 8)"
    by (simp_all add: mask_eq_exp_minus_1)
  fix n assume "n < LENGTH(32)"
  then consider "n < 8" | "8 \<le> n" "n < 16" | "16 \<le> n" "n < 24" | "24 \<le> n" "n < 32"
    by fastforce
  then show "bit (ntohl (ntohl w)) n = bit w n"
    by cases (auto simp: ntohl_def m bit_simps dest: bit_imp_le_length)
qed

lemma ntohl_htonl [simp]: "ntohl (htonl w) = w" and htonl_ntohl [simp]: "htonl (ntohl w) = w"
  and ntohl_0 [simp]: "ntohl 0 = 0"
  by (simp_all add: htonl_def) (simp add: ntohl_def)

lemma length_st16 [simp, len_simps]: "length (st16 w) = 2"
  by (simp add: st16_def)

lemma length_st32 [simp, len_simps]: "length (st32 w) = 4"
  by (simp add: st32_def)

lemma unat_byte: "unat (b :: byte) < 256"
  using unsigned_less [of b] by simp

lemma unat_u16: "unat (w :: u16) < 65536"
  using unsigned_less [of w] by simp

lemma unat_u32: "unat (w :: u32) < 4294967296"
  using unsigned_less [of w] by simp

lemma unat_u16_diff:
  assumes "b \<le> a" "a < 65536"
  shows "unat (word_of_int (int a - int b) :: u16) = a - b"
proof -
  have "int a - int b = int (a - b)" using assms(1) by (rule of_nat_diff [symmetric])
  then have "(word_of_int (int a - int b) :: u16) = of_nat (a - b)"
    by (simp only: of_int_of_nat_eq)
  then show ?thesis
    using assms(2) by (simp only: unsigned_of_nat) (simp add: take_bit_nat_eq_self)
qed

lemma unat_high_nibble: "unat (drop_bit 4 (b :: byte)) < 16"
  using unat_byte [of b] by (subst unsigned_drop_bit_eq) (simp add: drop_bit_eq_div take_bit_nat_eq_self)

lemma unat_ld16: "unat (ld16 a b) = unat a + 256 * unat b"
proof -
  have "ucast a AND push_bit 8 (ucast b) = (0 :: u16)"
    by (rule bit_word_eqI) (auto simp: bit_simps)
  then have "ld16 a b = ucast a + push_bit 8 (ucast b)"
    by (simp add: ld16_def disjunctive_add_eq_or)
  then have "ld16 a b = ucast a + 256 * ucast b"
    by (simp add: push_bit_eq_mult mult.commute)
  then show ?thesis
    using unat_byte [of a] unat_byte [of b]
    by (simp add: unat_word_ariths unsigned_ucast_eq take_bit_nat_eq_self)
qed

end
