(* ===== verification/Checksum.thy ===== *)
theory Checksum
  imports Prelude
begin

text \<open>
  The Internet checksum of \<open>util.c\<close> (\<open>calc_checksum\<close>). The code adds native 16 bit words
  into a 32 bit register and folds the carries back. The theory relates it to the sum of
  the words as a natural number (\<open>wsum\<close>) in ones' complement (\<open>oc\<close>), and states what the
  packet builders need of it as the locale \<open>inet_checksum\<close>.
\<close>

section \<open>The code\<close>

text \<open>The two summing loops: \<open>while (len > 1)\<close>, and the odd byte at the end.\<close>

fun sum_words :: "u32 \<Rightarrow> bytes \<Rightarrow> u32" where
  "sum_words s (a # b # r) = sum_words (s + ucast (ld16 a b)) r"
| "sum_words s [a] = s + ucast a"
| "sum_words s [] = s"

text \<open>\<open>while (sum >> 16) sum = (sum & 0xFFFF) + (sum >> 16)\<close>.\<close>

lemma unat_and_FFFF: "unat (s AND 0xFFFF :: u32) = unat s mod 65536"
proof -
  have "s AND 0xFFFF = take_bit 16 s"
    by (simp add: take_bit_eq_mask mask_eq_exp_minus_1)
  then have "unat (s AND 0xFFFF) = take_bit 16 (unat s)"
    by (simp only: unsigned_take_bit_eq)
  then show ?thesis
    by (simp add: take_bit_eq_mod)
qed

lemma unat_drop16: "unat (drop_bit 16 s :: u32) = unat s div 65536"
proof -
  have "unat (drop_bit 16 s) = drop_bit 16 (unat s)"
    by (rule bit_eqI) (auto simp: bit_simps dest: bit_imp_le_length)
  then show ?thesis
    by (simp only: drop_bit_eq_div) simp
qed

lemma fold_step_le: "(n :: nat) mod 65536 + n div 65536 + 65535 * (n div 65536) = n"
  using div_mult_mod_eq [of n 65536] by linarith

lemma unat_fold_step:
  "unat ((s AND 0xFFFF) + drop_bit 16 s :: u32) = unat s mod 65536 + unat s div 65536"
proof -
  have "unat s mod 65536 + unat s div 65536 < 4294967296"
    using unat_u32 [of s] fold_step_le [of "unat s"] by linarith
  then show ?thesis
    by (simp add: unat_word_ariths unat_and_FFFF unat_drop16 del: drop_bit_eq_div)
qed

function fold_carry :: "u32 \<Rightarrow> u32" where
  "fold_carry s =
     (if drop_bit 16 s \<noteq> 0 then fold_carry ((s AND 0xFFFF) + drop_bit 16 s) else s)"
  by pat_completeness auto

lemma drop16_nonzero: "drop_bit 16 (s :: u32) \<noteq> 0 \<longleftrightarrow> 65536 \<le> unat s"
proof -
  have "drop_bit 16 s = 0 \<longleftrightarrow> unat s div 65536 = 0"
    using unat_drop16 [of s] by (metis unat_eq_0 unsigned_0)
  then show ?thesis
    by (auto simp: div_eq_0_iff)
qed

termination fold_carry
proof (relation "measure unat")
  fix s :: u32
  assume "drop_bit 16 s \<noteq> 0"
  then have "65536 \<le> unat s" by (simp add: drop16_nonzero)
  then have "unat s mod 65536 + unat s div 65536 < unat s"
    using fold_step_le [of "unat s"] div_le_mono [of 65536 "unat s" 65536] by linarith
  then show "((s AND 0xFFFF) + drop_bit 16 s, s) \<in> measure unat"
    by (simp add: unat_fold_step)
qed simp

declare fold_carry.simps [simp del]

definition calc_checksum :: "u16 \<Rightarrow> bytes \<Rightarrow> u16" where
  "calc_checksum start buffer = ucast (fold_carry (sum_words (ucast start) buffer))"

section \<open>The sum in ones' complement\<close>

fun wsum :: "bytes \<Rightarrow> nat" where
  "wsum (a # b # r) = unat a + 256 * unat b + wsum r"
| "wsum [a] = unat a"
| "wsum [] = 0"

definition oc :: "nat \<Rightarrow> nat" where
  "oc n = (if n = 0 then 0 else (n - 1) mod 65535 + 1)"

lemma oc_0 [simp]: "oc 0 = 0"
  by (simp add: oc_def)

lemma oc_eq_0 [simp]: "oc n = 0 \<longleftrightarrow> n = 0"
  by (simp add: oc_def)

lemma oc_le: "oc n \<le> 65535"
  by (simp add: oc_def flip: less_Suc_eq_le)

lemma oc_small [simp]: "n \<le> 65535 \<Longrightarrow> oc n = n"
  by (auto simp: oc_def)

lemma oc_oc_add [simp]: "oc (oc a + b) = oc (a + b)"
proof (cases "a = 0")
  case False
  then have "((a - 1) mod 65535 + b) mod 65535 = (a + b - 1) mod 65535"
    by (metis Nat.add_diff_assoc2 One_nat_def Suc_leI mod_add_left_eq neq0_conv)
  with False show ?thesis
    by (simp add: oc_def)
qed simp

lemma oc_add_oc [simp]: "oc (a + oc b) = oc (a + b)"
  using oc_oc_add [of b a] by (simp add: add.commute)

lemma oc_fold: "0 < a \<Longrightarrow> oc (a + 65535 * k) = oc a"
  by (simp add: oc_def) (metis Nat.add_diff_assoc2 One_nat_def Suc_leI mod_mult_self2)

lemma oc_complement: "oc (n + (65535 - oc n)) = 65535"
proof -
  have "oc (oc n + (65535 - oc n)) = 65535"
    using oc_le [of n] by simp
  then show ?thesis by simp
qed

lemma unat_fold_carry: "unat (fold_carry s) = oc (unat s)"
proof (induction s rule: fold_carry.induct)
  case (1 s)
  show ?case
  proof (cases "65536 \<le> unat s")
    case True
    then have "unat (fold_carry s) = oc (unat s mod 65536 + unat s div 65536)"
      using 1 by (subst fold_carry.simps) (simp add: drop16_nonzero unat_fold_step)
    also have "\<dots> = oc (unat s mod 65536 + unat s div 65536 + 65535 * (unat s div 65536))"
      using True by (intro oc_fold [symmetric]) (simp add: add_pos_pos div_greater_zero_iff)
    also have "unat s mod 65536 + unat s div 65536 + 65535 * (unat s div 65536) = unat s"
      by (rule fold_step_le)
    finally show ?thesis .
  next
    case False
    then show ?thesis
      by (subst fold_carry.simps) (simp add: drop16_nonzero)
  qed
qed

lemma wsum_bound: "wsum xs \<le> 65535 * ((length xs + 1) div 2)"
proof (induction xs rule: wsum.induct)
  case (1 a b r)
  then show ?case
    using unat_byte [of a] unat_byte [of b] by simp
next
  case (2 a)
  then show ?case
    using unat_byte [of a] by simp
qed simp

lemma unat_sum_words:
  "unat s + wsum xs < 4294967296 \<Longrightarrow> unat (sum_words s xs) = unat s + wsum xs"
proof (induction s xs rule: sum_words.induct)
  case (1 s a b r)
  then have "unat (s + ucast (ld16 a b)) = unat s + (unat a + 256 * unat b)"
    by (simp add: unat_word_ariths unsigned_ucast_eq take_bit_nat_eq_self unat_ld16
        take_bit_eq_mod)
  with 1 show ?case by (simp add: add.assoc)
next
  case (2 s a)
  then show ?case
    by (simp add: unat_word_ariths unsigned_ucast_eq take_bit_eq_mod)
qed simp

text \<open>
  The register does not overflow on any buffer of at most 131068 bytes; every buffer the
  code sums is a packet of at most 65575 bytes.
\<close>

lemma unat_calc_checksum:
  assumes "length xs \<le> 131068"
  shows "unat (calc_checksum s xs) = oc (unat s + wsum xs)"
proof -
  have "wsum xs \<le> 65535 * 65534"
    using wsum_bound [of xs] assms mult_le_mono2 [of "(length xs + 1) div 2" 65534 65535]
    by linarith
  then have "unat s + wsum xs < 4294967296"
    using unat_u16 [of s] by simp
  then have "unat (sum_words (ucast s) xs) = unat s + wsum xs"
    by (simp add: unat_sum_words unsigned_ucast_eq take_bit_eq_mod)
  then show ?thesis
    using oc_le [of "unat s + wsum xs"]
    by (simp add: calc_checksum_def unsigned_ucast_eq unat_fold_carry take_bit_eq_mod)
qed

section \<open>Concatenation, commutation and filling the checksum field\<close>

lemma wsum_append: "even (length xs) \<Longrightarrow> wsum (xs @ ys) = wsum xs + wsum ys"
  by (induction xs rule: wsum.induct) auto

lemma wsum_append3:
  "even (length xs) \<Longrightarrow> even (length ys) \<Longrightarrow>
   wsum (xs @ ys @ zs) = wsum xs + wsum ys + wsum zs"
  by (simp add: wsum_append)

lemma wsum_st16: "wsum (st16 w) = unat w"
proof -
  have "wsum (st16 w) = unat (ld16 (ucast w) (ucast (drop_bit 8 w)))"
    by (simp add: st16_def unat_ld16)
  then show ?thesis by (simp add: mem_simps)
qed

lemma unat_NOT_u16: "unat (NOT w :: u16) = 65535 - unat w"
proof -
  have "NOT w = 65535 - w" by (simp add: not_eq_complement)
  then show ?thesis
    using unat_u16 [of w] by (simp add: unat_sub word_le_nat_alt)
qed

lemma calc_checksum_chain:
  assumes "even (length xs)" "length (xs @ ys) \<le> 131068"
  shows "calc_checksum (calc_checksum s xs) ys = calc_checksum s (xs @ ys)"
proof -
  have "unat (calc_checksum (calc_checksum s xs) ys) = oc (unat s + wsum xs + wsum ys)"
    using assms by (simp add: unat_calc_checksum)
  also have "\<dots> = unat (calc_checksum s (xs @ ys))"
    using assms by (simp add: unat_calc_checksum wsum_append add.assoc)
  finally show ?thesis by (rule unsigned_word_eqI)
qed

lemma calc_checksum_swap:
  assumes "even (length xs)" "even (length ys)" "length (xs @ ys @ zs) \<le> 131068"
  shows "calc_checksum s (xs @ ys @ zs) = calc_checksum s (ys @ xs @ zs)"
proof -
  have "wsum (xs @ ys @ zs) = wsum (ys @ xs @ zs)"
    using assms by (simp add: wsum_append)
  moreover have "length (ys @ xs @ zs) \<le> 131068"
    using assms by simp
  ultimately have "unat (calc_checksum s (xs @ ys @ zs)) = unat (calc_checksum s (ys @ xs @ zs))"
    using assms(3) unat_calc_checksum by metis
  then show ?thesis by (rule unsigned_word_eqI)
qed

lemma calc_checksum_fill:
  assumes "even (length xs)" "length (xs @ [0, 0] @ ys) \<le> 131068"
  shows "calc_checksum s (xs @ st16 (NOT (calc_checksum s (xs @ [0, 0] @ ys))) @ ys) = 0xFFFF"
proof -
  let ?n = "unat s + wsum xs + wsum ys"
  have "unat (calc_checksum s (xs @ [0, 0] @ ys)) = oc ?n"
    using assms by (simp add: unat_calc_checksum wsum_append add.assoc)
  then have "wsum (xs @ st16 (NOT (calc_checksum s (xs @ [0, 0] @ ys))) @ ys)
      = wsum xs + (65535 - oc ?n) + wsum ys"
    using assms by (simp add: wsum_append3 wsum_st16 unat_NOT_u16)
  then have "unat (calc_checksum s (xs @ st16 (NOT (calc_checksum s (xs @ [0, 0] @ ys))) @ ys))
      = oc (?n + (65535 - oc ?n))"
    using assms by (simp add: unat_calc_checksum ac_simps)
  then have "unat (calc_checksum s (xs @ st16 (NOT (calc_checksum s (xs @ [0, 0] @ ys))) @ ys))
      = unat (0xFFFF :: u16)"
    by (simp add: oc_complement)
  then show ?thesis by (rule unsigned_word_eqI)
qed

text \<open>
  The checksum is zero for an all-zero buffer only; so \<open>!calc_checksum(...)\<close> is not a test
  for a wrong checksum.
\<close>

lemma wsum_eq_0: "wsum xs = 0 \<longleftrightarrow> (\<forall>b \<in> set xs. b = 0)"
  by (induction xs rule: wsum.induct) (auto simp: unat_eq_0)

lemma calc_checksum_eq_0:
  assumes "length xs \<le> 131068"
  shows "calc_checksum s xs = 0 \<longleftrightarrow> s = 0 \<and> (\<forall>b \<in> set xs. b = 0)"
  using unat_calc_checksum [OF assms, of s]
  by (metis add_is_0 oc_eq_0 unat_eq_0 wsum_eq_0)

section \<open>The interface the packet builders use\<close>

locale inet_checksum =
  fixes csum :: "u16 \<Rightarrow> bytes \<Rightarrow> u16"
    and lim :: nat
  assumes chain: "even (length xs) \<Longrightarrow> length (xs @ ys) \<le> lim \<Longrightarrow>
      csum (csum s xs) ys = csum s (xs @ ys)"
    and swap: "even (length xs) \<Longrightarrow> even (length ys) \<Longrightarrow> length (xs @ ys @ zs) \<le> lim \<Longrightarrow>
      csum s (xs @ ys @ zs) = csum s (ys @ xs @ zs)"
    and fill: "even (length xs) \<Longrightarrow> length (xs @ [0, 0] @ ys) \<le> lim \<Longrightarrow>
      csum s (xs @ st16 (NOT (csum s (xs @ [0, 0] @ ys))) @ ys) = 0xFFFF"
begin

text \<open>A header that is summed alone, its check field at an even offset.\<close>

lemma header_verifies:
  "even (length pre) \<Longrightarrow> length pre + 2 + length post \<le> lim \<Longrightarrow>
   c = NOT (csum 0 (pre @ [0, 0] @ post)) \<Longrightarrow> csum 0 (pre @ st16 c @ post) = 0xFFFF"
  using fill [of pre post 0] by simp

text \<open>
  A segment summed piecewise: pseudo header, transport header with a zero check field,
  then the rest.
\<close>

lemma segment_verifies:
  assumes "even (length ph)" "even (length pre)" "even (length post)" "even (length opts)"
    and "length ph + length pre + 2 + length post + length opts + length dat \<le> lim"
    and "c = NOT (csum (csum (csum (csum 0 ph) (pre @ [0, 0] @ post)) opts) dat)"
  shows "csum 0 (ph @ pre @ st16 c @ post @ opts @ dat) = 0xFFFF"
proof -
  have "csum (csum (csum (csum 0 ph) (pre @ [0, 0] @ post)) opts) dat
      = csum 0 ((ph @ pre) @ [0, 0] @ (post @ opts @ dat))"
    using assms(1-5) by (simp add: chain)
  then show ?thesis
    using fill [of "ph @ pre" "post @ opts @ dat" 0] assms by simp
qed

end

interpretation calc: inet_checksum calc_checksum 131068
  by unfold_locales (rule calc_checksum_chain calc_checksum_swap calc_checksum_fill; assumption)+

section \<open>The checksum is the Internet checksum\<close>

text \<open>
  C40: For every buffer up to 128 KiB \<open>calc_checksum\<close> is the ones' complement sum of RFC 1071: the sum
  of the 16 bit words (an odd last byte counting as a word of its own) reduced to 1..65535, and 0
  only for a zero start and an all-zero buffer. The 32 bit register never overflows and the carry
  loop ends.
\<close>

theorem calc_checksum_is_ones_complement_sum:
  assumes "length xs \<le> 131068" and "n = unat s + wsum xs"
  shows "unat (calc_checksum s xs) = (if n = 0 then 0 else (n - 1) mod 65535 + 1)
    \<and> (calc_checksum s xs = 0 \<longleftrightarrow> s = 0 \<and> (\<forall>b \<in> set xs. b = 0))"
  using unat_calc_checksum [OF assms(1), of s] calc_checksum_eq_0 [OF assms(1), of s] assms(2)
  by (simp add: oc_def)

theorem calc_checksum_is_ones_complement_sum_witness:
  "unat (calc_checksum 1 [0x45, 0x00, 0xFF]) = 325"
  using calc_checksum_is_ones_complement_sum [of "[0x45, 0x00, 0xFF]" 325 1] by simp

end
