(* ===== verification/Util.thy ===== *)
theory Util
  imports Prelude
begin

text \<open>
  The helpers of \<open>util.c\<close> beside the checksum: sequence number comparison
  (\<open>compare_u32\<close>), hexadecimal conversion, \<open>trim\<close> and the names of the TCP states.
  C strings are byte lists without the terminating NUL; \<open>cstr\<close> turns a literal into one.
\<close>

definition cstr :: "string \<Rightarrow> bytes" where
  "cstr s = map of_char s"

text \<open>The C string at a pointer: the bytes up to the first NUL (or the end).\<close>

definition until_nul :: "bytes \<Rightarrow> bytes" where
  "until_nul = takeWhile (\<lambda>b. b \<noteq> 0)"

lemma until_nul_id [simp]: "0 \<notin> set xs \<Longrightarrow> until_nul xs = xs"
  by (auto simp: until_nul_def takeWhile_eq_all_conv)

lemma nul_notin_until_nul [simp]: "0 \<notin> set (until_nul xs)"
  by (auto simp: until_nul_def dest: set_takeWhileD)

lemma length_until_nul_le: "length (until_nul xs) \<le> length xs"
  by (simp add: until_nul_def length_takeWhile_le)

section \<open>Sequence numbers\<close>

text \<open>
  \<open>int i1 = s1; int i2 = s2;\<close> read the words as signed. The subtractions are 32 bit
  signed subtractions; where they overflow C leaves the result open, and the model has the
  two's complement result of the compiled code, written out as word subtraction.
\<close>

definition compare_u32 :: "u32 \<Rightarrow> u32 \<Rightarrow> int" where
  "compare_u32 s1 s2 =
     (if s1 = s2 then 0
      else let i1 = sint s1; i2 = sint s2 in
        if (i1 < i2 \<and> sint (s2 - s1) < 0x7FFFFFFF) \<or>
           (i1 > i2 \<and> sint (s1 - s2) > 0x7FFFFFFF)
        then -1 else 1)"

lemma sint_u32_bounds: "- 2147483648 \<le> sint (w :: u32)" "sint (w :: u32) \<le> 2147483647"
  using sint_greater_eq [of w] sint_less [of w] by simp_all

lemma sint_u32_eq_max: "sint (w :: u32) = 2147483647 \<longleftrightarrow> w = 0x7FFFFFFF"
proof
  assume "sint w = 2147483647"
  then have "word_of_int (sint w) = (word_of_int 2147483647 :: u32)" by simp
  then show "w = 0x7FFFFFFF" by simp
qed simp

lemma compare_u32_eq:
  "compare_u32 s1 s2 =
     (if s1 = s2 then 0 else if sint s1 < sint s2 \<and> s2 - s1 \<noteq> 0x7FFFFFFF then -1 else 1)"
  using sint_u32_bounds [of "s1 - s2"] sint_u32_bounds [of "s2 - s1"]
    sint_u32_eq_max [of "s2 - s1"]
  by (auto simp: compare_u32_def Let_def)

lemma compare_u32_refl [simp]: "compare_u32 s s = 0"
  by (simp add: compare_u32_eq)

lemma compare_u32_zero [simp]: "compare_u32 a b = 0 \<longleftrightarrow> a = b"
  by (simp add: compare_u32_eq)

lemma compare_u32_cases: "compare_u32 a b \<in> {-1, 0, 1}"
  by (simp add: compare_u32_eq)

lemma compare_u32_pos: "compare_u32 a b > 0 \<longleftrightarrow> a \<noteq> b \<and> \<not> compare_u32 a b < 0"
  by (simp add: compare_u32_eq)

lemma compare_u32_less_rev: "compare_u32 a b < 0 \<Longrightarrow> compare_u32 b a > 0"
  by (auto simp: compare_u32_eq split: if_splits)

text \<open>
  The reference: RFC 1982 serial number order on 32 bits, which the code's comment cites.
\<close>

definition serial_lt :: "u32 \<Rightarrow> u32 \<Rightarrow> bool" where
  "serial_lt s1 s2 \<longleftrightarrow> s1 \<noteq> s2 \<and> uint (s2 - s1) < 2147483648"

lemma serial_lt_add: "d \<noteq> 0 \<Longrightarrow> uint d < 2147483648 \<Longrightarrow> serial_lt s (s + d)"
  by (simp add: serial_lt_def)

lemma uint_u32: "0 \<le> uint (w :: u32)" "uint (w :: u32) < 4294967296"
  using uint_lt2p [of w] by simp_all

lemma sint_u32: "sint (w :: u32) = (if uint w < 2147483648 then uint w else uint w - 4294967296)"
proof -
  have "sint w = take_bit 32 (uint w) - 2 ^ 32 * of_bool (bit (uint w) 31)"
    using sint_uint [of w] signed_take_bit_eq_take_bit_minus [of 31 "uint w"] by simp
  moreover have "bit (uint w) 31 \<longleftrightarrow> 2147483648 \<le> uint w"
  proof (cases "2147483648 \<le> uint w")
    case True
    then have "uint w div 2 ^ 31 = 1"
      using uint_u32 [of w] by (intro int_div_pos_eq [where r = "uint w - 2147483648"]) auto
    with True show ?thesis by (simp add: bit_iff_odd)
  next
    case False
    then show ?thesis by (simp add: bit_iff_odd)
  qed
  ultimately show ?thesis
    using uint_u32 [of w] by (auto simp: take_bit_eq_mod)
qed

text \<open>Where both numbers are on one side of the sign boundary the code is the RFC's order.\<close>

lemma compare_u32_same_side:
  assumes "sint s1 < 0 \<longleftrightarrow> sint s2 < 0" and "s2 - s1 \<noteq> 0x7FFFFFFF"
  shows "compare_u32 s1 s2 = (if s1 = s2 then 0 else if serial_lt s1 s2 then -1 else 1)"
proof -
  have "uint s1 \<noteq> uint s2" if "s1 \<noteq> s2"
    using that by (simp add: word_uint_eq_iff)
  then have "sint s1 < sint s2 \<longleftrightarrow> serial_lt s1 s2" if "s1 \<noteq> s2"
    using assms(1) that uint_u32 [of s1] uint_u32 [of s2]
    by (auto simp: serial_lt_def sint_u32 uint_sub_if' split: if_splits)
      (use uint_u32(1) [of s1] uint_u32(1) [of s2] in linarith)+
  with assms(2) show ?thesis by (simp add: compare_u32_eq)
qed

section \<open>Hexadecimal\<close>

definition char2nible :: "byte \<Rightarrow> byte" where
  "char2nible c =
     (if 48 \<le> c \<and> c \<le> 57 then c - 48
      else if 97 \<le> c \<and> c \<le> 102 then c - 97 + 10
      else if 65 \<le> c \<and> c \<le> 70 then c - 65 + 10
      else 255)"

text \<open>The loop steps by two; at an odd end \<open>hex[i + 1]\<close> is the terminating NUL.\<close>

fun hex2bytes :: "bytes \<Rightarrow> bytes" where
  "hex2bytes (a # b # r) = (push_bit 4 (char2nible a) OR char2nible b) # hex2bytes r"
| "hex2bytes [a] = [push_bit 4 (char2nible a) OR char2nible 0]"
| "hex2bytes [] = []"

definition hex_str :: bytes where
  "hex_str = cstr ''0123456789ABCDEF''"

fun hex :: "bytes \<Rightarrow> bytes" where
  "hex [] = []"
| "hex (d # ds) =
     hex_str ! unat (drop_bit 4 d AND 0x0F) # hex_str ! unat (d AND 0x0F) # 32 # hex ds"

lemma hex_str_code: "hex_str = [48, 49, 50, 51, 52, 53, 54, 55, 56, 57, 65, 66, 67, 68, 69, 70]"
  by (simp add: hex_str_def cstr_def)

lemma unat_low_nibble: "unat (d AND 0x0F :: byte) < 16"
proof -
  have "d AND 0x0F = take_bit 4 d"
    by (simp add: take_bit_eq_mask mask_eq_exp_minus_1)
  then show ?thesis
    using take_bit_nat_less_exp [of 4 "unat d"] by (simp add: unsigned_take_bit_eq)
qed

lemma hex_digit:
  assumes "n < 16"
  shows "char2nible (hex_str ! n) = of_nat n \<and> hex_str ! n \<noteq> 32"
proof -
  have "list_all (\<lambda>n. char2nible (hex_str ! n) = of_nat n \<and> hex_str ! n \<noteq> 32) [0..<16]"
    unfolding hex_str_code by code_simp
  with assms show ?thesis
    by (simp add: list_all_iff)
qed

lemma nibbles: "push_bit 4 (drop_bit 4 d) AND 240 OR (d AND 15) = (d :: byte)"
proof -
  have m: "(240 :: byte) = push_bit 4 (mask 4)" "(15 :: byte) = mask 4"
    by (simp_all add: mask_eq_exp_minus_1)
  show ?thesis
    unfolding m by (rule bit_word_eqI) (auto simp: bit_simps)
qed

lemma hex2bytes_hex: "hex2bytes (filter (\<lambda>c. c \<noteq> 32) (hex ds)) = ds"
proof (induction ds)
  case (Cons d ds)
  then show ?case
    using hex_digit [OF unat_low_nibble [of d]]
      hex_digit [OF unat_low_nibble [of "drop_bit 4 d"]]
    by (simp add: nibbles)
qed simp

section \<open>Trimming\<close>

definition isspace :: "byte \<Rightarrow> bool" where
  "isspace c \<longleftrightarrow> c = 32 \<or> (9 \<le> c \<and> c \<le> 13)"

text \<open>\<open>while (end > str && isspace(*end)) end--;\<close>\<close>

function trim_end :: "bytes \<Rightarrow> bytes" where
  "trim_end s = (if 1 < length s \<and> isspace (last s) then trim_end (butlast s) else s)"
  by pat_completeness auto
termination by (relation "measure length") auto

declare trim_end.simps [simp del]

definition trim :: "bytes \<Rightarrow> bytes" where
  "trim s = (let s' = dropWhile isspace s in if s' = [] then s' else trim_end s')"

lemma trim_end_last: "1 < length (trim_end s) \<Longrightarrow> \<not> isspace (last (trim_end s))"
  by (induction s rule: trim_end.induct) (metis trim_end.simps)

lemma trim_end_hd: "s \<noteq> [] \<Longrightarrow> trim_end s \<noteq> [] \<and> hd (trim_end s) = hd s"
proof (induction s rule: trim_end.induct)
  case (1 s)
  show ?case
  proof (cases "1 < length s \<and> isspace (last s)")
    case True
    then have "butlast s \<noteq> []" "hd (butlast s) = hd s"
      by (cases s; auto)+
    with True 1 show ?thesis by (metis trim_end.simps)
  next
    case False
    then have "trim_end s = s" by (subst trim_end.simps) auto
    with 1 show ?thesis by simp
  qed
qed

lemma trim_no_space: "trim s \<noteq> [] \<Longrightarrow> \<not> isspace (hd (trim s)) \<and> \<not> isspace (last (trim s))"
proof -
  let ?s = "dropWhile isspace s"
  assume "trim s \<noteq> []"
  then have ne: "?s \<noteq> []" by (metis trim_def)
  then have hd: "\<not> isspace (hd (trim_end ?s))" "trim_end ?s \<noteq> []"
    using trim_end_hd [OF ne] hd_dropWhile [OF ne] by auto
  have "\<not> isspace (last (trim_end ?s))"
  proof (cases "1 < length (trim_end ?s)")
    case False
    then have "last (trim_end ?s) = hd (trim_end ?s)"
      using hd(2) by (cases "trim_end ?s") auto
    with hd show ?thesis by simp
  qed (rule trim_end_last)
  moreover have "trim s = trim_end ?s"
    using ne by (simp only: trim_def Let_def if_False)
  ultimately show ?thesis using hd by simp
qed

section \<open>TCP states\<close>

text \<open>
  The states of \<open>netinet/tcp.h\<close> with their numbers, and \<open>TCP_ZERO\<close> for the value of a
  zeroed \<open>state\<close> field, which is none of them.
\<close>

datatype tcp_state =
    TCP_ESTABLISHED | TCP_SYN_SENT | TCP_SYN_RECV | TCP_FIN_WAIT1 | TCP_FIN_WAIT2
  | TCP_TIME_WAIT | TCP_CLOSE | TCP_CLOSE_WAIT | TCP_LAST_ACK | TCP_LISTEN | TCP_CLOSING
  | TCP_ZERO

fun tcp_code :: "tcp_state \<Rightarrow> int" where
  "tcp_code TCP_ESTABLISHED = 1"
| "tcp_code TCP_SYN_SENT = 2"
| "tcp_code TCP_SYN_RECV = 3"
| "tcp_code TCP_FIN_WAIT1 = 4"
| "tcp_code TCP_FIN_WAIT2 = 5"
| "tcp_code TCP_TIME_WAIT = 6"
| "tcp_code TCP_CLOSE = 7"
| "tcp_code TCP_CLOSE_WAIT = 8"
| "tcp_code TCP_LAST_ACK = 9"
| "tcp_code TCP_LISTEN = 10"
| "tcp_code TCP_CLOSING = 11"
| "tcp_code TCP_ZERO = 0"

definition strstate :: "int \<Rightarrow> string" where
  "strstate state =
     (if state = tcp_code TCP_ESTABLISHED then ''ESTABLISHED''
      else if state = tcp_code TCP_SYN_SENT then ''SYN_SENT''
      else if state = tcp_code TCP_SYN_RECV then ''SYN_RECV''
      else if state = tcp_code TCP_FIN_WAIT1 then ''FIN_WAIT1''
      else if state = tcp_code TCP_FIN_WAIT2 then ''FIN_WAIT2''
      else if state = tcp_code TCP_TIME_WAIT then ''TIME_WAIT''
      else if state = tcp_code TCP_CLOSE then ''CLOSE''
      else if state = tcp_code TCP_CLOSE_WAIT then ''CLOSE_WAIT''
      else if state = tcp_code TCP_LAST_ACK then ''LAST_ACK''
      else if state = tcp_code TCP_LISTEN then ''LISTEN''
      else if state = tcp_code TCP_CLOSING then ''CLOSING''
      else ''UNKNOWN'')"

lemma strstate_inj: "strstate (tcp_code a) = strstate (tcp_code b) \<Longrightarrow> a = b"
  by (cases a; cases b; simp add: strstate_def)

section \<open>Properties\<close>

text \<open>
  On numbers that lie on one side of the 2^31 boundary (and are not exactly 2^31 - 1 apart)
  \<open>compare_u32\<close> is the serial number order of RFC 1982 that its comment cites: 0, -1 or 1 as the
  first number is equal to, before or behind the second.
\<close>

theorem compare_u32_is_rfc1982_on_one_side:
  assumes "s1 < 0x80000000 \<longleftrightarrow> s2 < 0x80000000" and "s2 - s1 \<noteq> 0x7FFFFFFF"
  shows "compare_u32 s1 s2 = (if s1 = s2 then 0 else if serial_lt s1 s2 then -1 else 1)"
  by (rule compare_u32_same_side)
    (use assms uint_u32 [of s1] uint_u32 [of s2] in \<open>auto simp: sint_u32 word_less_def\<close>)

theorem compare_u32_is_rfc1982_on_one_side_witness:
  "compare_u32 5 9 = -1 \<and> compare_u32 0xFFFFFFF0 0xFFFFFFF8 = -1"
  using compare_u32_is_rfc1982_on_one_side [of 5 9]
    compare_u32_is_rfc1982_on_one_side [of "0xFFFFFFF0" "0xFFFFFFF8"]
  by (simp add: serial_lt_def)

text \<open>
  Across that boundary the answer is the opposite of RFC 1982: a number just below 2^31 is
  called greater than every number above it, even the next one. A connection whose sequence numbers
  pass 2^31 has its new data taken for old.
\<close>

theorem compare_u32_wrong_across_boundary:
  assumes "s1 < 0x80000000" "0x80000000 \<le> s2" "serial_lt s1 s2"
  shows "compare_u32 s1 s2 = 1"
proof -
  have "\<not> sint s1 < sint s2" "s1 \<noteq> s2"
    using assms uint_u32 [of s1] uint_u32 [of s2]
    by (auto simp: sint_u32 word_less_def word_le_def)
      (use uint_u32(1) [of s1] in linarith)
  then show ?thesis by (simp add: compare_u32_eq)
qed

theorem compare_u32_wrong_across_boundary_witness:
  "compare_u32 0x7FFFFFFF 0x80000000 = 1"
  using compare_u32_wrong_across_boundary [of "0x7FFFFFFF" "0x80000000"]
  by (simp add: serial_lt_def)

text \<open>
  What \<open>hex\<close> prints, its spaces removed, \<open>hex2bytes\<close> reads back, for every list of bytes.
\<close>

theorem hex_round_trip: "hex2bytes (filter (\<lambda>c. c \<noteq> 32) (hex ds)) = ds"
  by (rule hex2bytes_hex)

end
