(* ===== verification/Headers.thy ===== *)
theory Headers
  imports Prelude
begin

text \<open>
  The C structs of \<open>netinet/ip.h\<close>, \<open>ip6.h\<close>, \<open>tcp.h\<close>, \<open>udp.h\<close> and the pseudo headers
  (\<open>struct ippseudo\<close>, \<open>struct ip6_hdr_pseudo\<close> of \<open>tun2http.h\<close>) that the code overlays on
  packet bytes. A field in network order keeps the value a native load gives, as the code
  does (\<open>ntohs\<close> is written where the code writes it). An address is its bytes.
  \<open>store_x\<close> lays a struct out, \<open>load_x\<close> reads it at a pointer.
\<close>

section \<open>struct iphdr\<close>

record iphdr =
  ip_version :: byte \<comment> \<open>4 bit\<close>
  ip_ihl :: byte \<comment> \<open>4 bit\<close>
  ip_tos :: byte
  ip_tot_len :: u16
  ip_id :: u16
  ip_frag_off :: u16
  ip_ttl :: byte
  ip_protocol :: byte
  ip_check :: u16
  ip_saddr :: bytes
  ip_daddr :: bytes

definition zero_iphdr :: iphdr where
  "zero_iphdr = \<lparr>ip_version = 0, ip_ihl = 0, ip_tos = 0, ip_tot_len = 0, ip_id = 0,
     ip_frag_off = 0, ip_ttl = 0, ip_protocol = 0, ip_check = 0,
     ip_saddr = replicate 4 0, ip_daddr = replicate 4 0\<rparr>"

definition store_iphdr :: "iphdr \<Rightarrow> bytes" where
  "store_iphdr h =
     [(ip_ihl h AND 15) OR push_bit 4 (ip_version h), ip_tos h]
     @ st16 (ip_tot_len h) @ st16 (ip_id h) @ st16 (ip_frag_off h)
     @ [ip_ttl h, ip_protocol h] @ st16 (ip_check h) @ ip_saddr h @ ip_daddr h"

definition decode_iphdr :: "bytes \<Rightarrow> iphdr" where
  "decode_iphdr b = \<lparr>ip_version = drop_bit 4 (b ! 0), ip_ihl = b ! 0 AND 15, ip_tos = b ! 1,
     ip_tot_len = ld16 (b ! 2) (b ! 3), ip_id = ld16 (b ! 4) (b ! 5),
     ip_frag_off = ld16 (b ! 6) (b ! 7), ip_ttl = b ! 8, ip_protocol = b ! 9,
     ip_check = ld16 (b ! 10) (b ! 11), ip_saddr = take 4 (drop 12 b),
     ip_daddr = take 4 (drop 16 b)\<rparr>"

definition load_iphdr :: "bytes \<Rightarrow> iphdr result" where
  "load_iphdr p = (if 20 \<le> length p then Inr (decode_iphdr (take 20 p)) else Inl OobRead)"

definition wf_iphdr :: "iphdr \<Rightarrow> bool" where
  "wf_iphdr h \<longleftrightarrow> ip_version h \<le> 15 \<and> ip_ihl h \<le> 15 \<and>
     length (ip_saddr h) = 4 \<and> length (ip_daddr h) = 4"

section \<open>struct ip6_hdr\<close>

text \<open>\<open>ip6_un2_vfc\<close> is the first byte of \<open>ip6_un1_flow\<close> (a union).\<close>

record ip6_hdr =
  ip6_un1_flow :: bytes
  ip6_un1_plen :: u16
  ip6_un1_nxt :: byte
  ip6_un1_hlim :: byte
  ip6_src :: bytes
  ip6_dst :: bytes

definition zero_ip6_hdr :: ip6_hdr where
  "zero_ip6_hdr = \<lparr>ip6_un1_flow = replicate 4 0, ip6_un1_plen = 0, ip6_un1_nxt = 0,
     ip6_un1_hlim = 0, ip6_src = replicate 16 0, ip6_dst = replicate 16 0\<rparr>"

definition set_vfc :: "byte \<Rightarrow> ip6_hdr \<Rightarrow> ip6_hdr" where
  "set_vfc v h = h\<lparr>ip6_un1_flow := (ip6_un1_flow h)[0 := v]\<rparr>"

definition store_ip6_hdr :: "ip6_hdr \<Rightarrow> bytes" where
  "store_ip6_hdr h = ip6_un1_flow h @ st16 (ip6_un1_plen h)
     @ [ip6_un1_nxt h, ip6_un1_hlim h] @ ip6_src h @ ip6_dst h"

definition decode_ip6_hdr :: "bytes \<Rightarrow> ip6_hdr" where
  "decode_ip6_hdr b = \<lparr>ip6_un1_flow = take 4 b, ip6_un1_plen = ld16 (b ! 4) (b ! 5),
     ip6_un1_nxt = b ! 6, ip6_un1_hlim = b ! 7,
     ip6_src = take 16 (drop 8 b), ip6_dst = take 16 (drop 24 b)\<rparr>"

definition load_ip6_hdr :: "bytes \<Rightarrow> ip6_hdr result" where
  "load_ip6_hdr p = (if 40 \<le> length p then Inr (decode_ip6_hdr (take 40 p)) else Inl OobRead)"

definition wf_ip6_hdr :: "ip6_hdr \<Rightarrow> bool" where
  "wf_ip6_hdr h \<longleftrightarrow> length (ip6_un1_flow h) = 4 \<and>
     length (ip6_src h) = 16 \<and> length (ip6_dst h) = 16"

section \<open>struct tcphdr\<close>

record tcphdr =
  th_source :: u16
  th_dest :: u16
  th_seq :: u32
  th_ack_seq :: u32
  th_res1 :: byte \<comment> \<open>4 bit\<close>
  th_doff :: byte \<comment> \<open>4 bit\<close>
  th_fin :: bool
  th_syn :: bool
  th_rst :: bool
  th_psh :: bool
  th_ack :: bool
  th_urg :: bool
  th_ece :: bool
  th_cwr :: bool
  th_window :: u16
  th_check :: u16
  th_urg_ptr :: u16

definition zero_tcphdr :: tcphdr where
  "zero_tcphdr = \<lparr>th_source = 0, th_dest = 0, th_seq = 0, th_ack_seq = 0, th_res1 = 0,
     th_doff = 0, th_fin = False, th_syn = False, th_rst = False, th_psh = False,
     th_ack = False, th_urg = False, th_ece = False, th_cwr = False,
     th_window = 0, th_check = 0, th_urg_ptr = 0\<rparr>"

definition tcp_flag_byte :: "tcphdr \<Rightarrow> byte" where
  "tcp_flag_byte h = of_bool (th_fin h) OR push_bit 1 (of_bool (th_syn h))
     OR push_bit 2 (of_bool (th_rst h)) OR push_bit 3 (of_bool (th_psh h))
     OR push_bit 4 (of_bool (th_ack h)) OR push_bit 5 (of_bool (th_urg h))
     OR push_bit 6 (of_bool (th_ece h)) OR push_bit 7 (of_bool (th_cwr h))"

definition store_tcphdr :: "tcphdr \<Rightarrow> bytes" where
  "store_tcphdr h = st16 (th_source h) @ st16 (th_dest h) @ st32 (th_seq h)
     @ st32 (th_ack_seq h) @ [(th_res1 h AND 15) OR push_bit 4 (th_doff h), tcp_flag_byte h]
     @ st16 (th_window h) @ st16 (th_check h) @ st16 (th_urg_ptr h)"

definition decode_tcphdr :: "bytes \<Rightarrow> tcphdr" where
  "decode_tcphdr b = \<lparr>th_source = ld16 (b ! 0) (b ! 1), th_dest = ld16 (b ! 2) (b ! 3),
     th_seq = ld32 (b ! 4) (b ! 5) (b ! 6) (b ! 7),
     th_ack_seq = ld32 (b ! 8) (b ! 9) (b ! 10) (b ! 11),
     th_res1 = b ! 12 AND 15, th_doff = drop_bit 4 (b ! 12),
     th_fin = bit (b ! 13) 0, th_syn = bit (b ! 13) 1, th_rst = bit (b ! 13) 2,
     th_psh = bit (b ! 13) 3, th_ack = bit (b ! 13) 4, th_urg = bit (b ! 13) 5,
     th_ece = bit (b ! 13) 6, th_cwr = bit (b ! 13) 7,
     th_window = ld16 (b ! 14) (b ! 15), th_check = ld16 (b ! 16) (b ! 17),
     th_urg_ptr = ld16 (b ! 18) (b ! 19)\<rparr>"

definition load_tcphdr :: "bytes \<Rightarrow> tcphdr result" where
  "load_tcphdr p = (if 20 \<le> length p then Inr (decode_tcphdr (take 20 p)) else Inl OobRead)"

definition wf_tcphdr :: "tcphdr \<Rightarrow> bool" where
  "wf_tcphdr h \<longleftrightarrow> th_res1 h \<le> 15 \<and> th_doff h \<le> 15"

section \<open>struct udphdr\<close>

record udphdr =
  uh_source :: u16
  uh_dest :: u16
  uh_len :: u16
  uh_check :: u16

definition zero_udphdr :: udphdr where
  "zero_udphdr = \<lparr>uh_source = 0, uh_dest = 0, uh_len = 0, uh_check = 0\<rparr>"

definition store_udphdr :: "udphdr \<Rightarrow> bytes" where
  "store_udphdr h = st16 (uh_source h) @ st16 (uh_dest h) @ st16 (uh_len h) @ st16 (uh_check h)"

definition decode_udphdr :: "bytes \<Rightarrow> udphdr" where
  "decode_udphdr b = \<lparr>uh_source = ld16 (b ! 0) (b ! 1), uh_dest = ld16 (b ! 2) (b ! 3),
     uh_len = ld16 (b ! 4) (b ! 5), uh_check = ld16 (b ! 6) (b ! 7)\<rparr>"

definition load_udphdr :: "bytes \<Rightarrow> udphdr result" where
  "load_udphdr p = (if 8 \<le> length p then Inr (decode_udphdr (take 8 p)) else Inl OobRead)"

section \<open>Pseudo headers\<close>

text \<open>\<open>struct ippseudo\<close>: source, destination, a zero byte, protocol, length.\<close>

definition store_ippseudo :: "bytes \<Rightarrow> bytes \<Rightarrow> byte \<Rightarrow> u16 \<Rightarrow> bytes" where
  "store_ippseudo src dst p plen = src @ dst @ [0, p] @ st16 plen"

text \<open>\<open>struct ip6_hdr_pseudo\<close>: source, destination, 32 bit length, three zero bytes, next header.\<close>

definition store_ip6_pseudo :: "bytes \<Rightarrow> bytes \<Rightarrow> u32 \<Rightarrow> byte \<Rightarrow> bytes" where
  "store_ip6_pseudo src dst plen nxt = src @ dst @ st32 plen @ [0, 0, 0, nxt]"

section \<open>Lengths and round trips\<close>

lemma length_store_iphdr [simp, len_simps]:
  "length (ip_saddr h) = 4 \<Longrightarrow> length (ip_daddr h) = 4 \<Longrightarrow> length (store_iphdr h) = 20"
  by (simp add: store_iphdr_def)

lemma length_store_ip6_hdr [simp, len_simps]:
  "wf_ip6_hdr h \<Longrightarrow> length (store_ip6_hdr h) = 40"
  by (simp add: store_ip6_hdr_def wf_ip6_hdr_def)

lemma length_store_tcphdr [simp, len_simps]: "length (store_tcphdr h) = 20"
  by (simp add: store_tcphdr_def)

lemma length_store_udphdr [simp, len_simps]: "length (store_udphdr h) = 8"
  by (simp add: store_udphdr_def)

lemma take_bit_nibble: "take_bit 4 v = v" if "v \<le> 15" for v :: byte
proof (rule unsigned_word_eqI)
  have "unat v < 16" using that by (simp add: word_le_nat_alt)
  then show "unat (take_bit 4 v) = unat v"
    by (simp add: unsigned_take_bit_eq take_bit_nat_eq_self)
qed

lemma bit_nibble: "bit v n \<Longrightarrow> n < 4" if "v \<le> 15" for v :: byte
  using take_bit_nibble [OF that] by (metis bit_take_bit_iff)

lemma nibble_hi: "v \<le> 15 \<Longrightarrow> drop_bit 4 (push_bit 4 v) = (v :: byte)"
  by (rule bit_word_eqI) (auto simp: bit_simps dest: bit_nibble)

lemma and_15: "x AND 15 = take_bit 4 (x :: byte)"
  by (simp add: take_bit_eq_mask mask_eq_exp_minus_1)

lemma nibble_lo: "i \<le> 15 \<Longrightarrow> ((i AND 15) OR push_bit 4 v) AND 15 = (i :: byte)"
  unfolding and_15 by (rule bit_word_eqI) (auto simp: bit_simps dest: bit_nibble)

lemma tcp_flag_bits:
  "bit (tcp_flag_byte h) 0 = th_fin h" "bit (tcp_flag_byte h) (Suc 0) = th_syn h"
  "bit (tcp_flag_byte h) 2 = th_rst h" "bit (tcp_flag_byte h) 3 = th_psh h"
  "bit (tcp_flag_byte h) 4 = th_ack h" "bit (tcp_flag_byte h) 5 = th_urg h"
  "bit (tcp_flag_byte h) 6 = th_ece h" "bit (tcp_flag_byte h) 7 = th_cwr h"
  by (auto simp: tcp_flag_byte_def bit_simps)

lemma decode_store_iphdr: "wf_iphdr h \<Longrightarrow> decode_iphdr (store_iphdr h) = h"
  by (cases h) (simp add: decode_iphdr_def store_iphdr_def wf_iphdr_def st16_def mem_simps
      nibble_hi nibble_lo nth_append)

lemma decode_store_ip6_hdr: "wf_ip6_hdr h \<Longrightarrow> decode_ip6_hdr (store_ip6_hdr h) = h"
  by (cases h) (simp add: decode_ip6_hdr_def store_ip6_hdr_def wf_ip6_hdr_def st16_def mem_simps
      nth_append)

lemma decode_store_tcphdr: "wf_tcphdr h \<Longrightarrow> decode_tcphdr (store_tcphdr h) = h"
  by (cases h) (simp add: decode_tcphdr_def store_tcphdr_def wf_tcphdr_def st16_def st32_def
      mem_simps nibble_hi nibble_lo tcp_flag_bits)

lemma decode_store_udphdr: "decode_udphdr (store_udphdr h) = h"
  by (cases h) (simp add: decode_udphdr_def store_udphdr_def st16_def mem_simps)

text \<open>Reading a stored struct back at its address.\<close>

lemma load_store_iphdr: "wf_iphdr h \<Longrightarrow> load_iphdr (store_iphdr h @ r) = Inr h"
  by (simp add: load_iphdr_def decode_store_iphdr wf_iphdr_def)

lemma load_store_ip6_hdr: "wf_ip6_hdr h \<Longrightarrow> load_ip6_hdr (store_ip6_hdr h @ r) = Inr h"
  by (simp add: load_ip6_hdr_def decode_store_ip6_hdr)

lemma load_store_tcphdr: "wf_tcphdr h \<Longrightarrow> load_tcphdr (store_tcphdr h @ r) = Inr h"
  by (simp add: load_tcphdr_def decode_store_tcphdr)

lemma load_store_udphdr: "load_udphdr (store_udphdr h @ r) = Inr h"
  by (simp add: load_udphdr_def decode_store_udphdr)


lemma load_iphdr_addrs:
  "load_iphdr p = Inr ip \<Longrightarrow> length (ip_saddr ip) = 4 \<and> length (ip_daddr ip) = 4"
  by (auto simp: load_iphdr_def decode_iphdr_def split: if_splits)

lemma load_ip6_hdr_addrs:
  "load_ip6_hdr p = Inr ip \<Longrightarrow> length (ip6_src ip) = 16 \<and> length (ip6_dst ip) = 16"
  by (auto simp: load_ip6_hdr_def decode_ip6_hdr_def split: if_splits)

end
