(* ===== verification/Tls.thy ===== *)
theory Tls
  imports Util
begin

text \<open>
  \<open>tls.c\<close>: the search for the server name in a TLS client hello, which \<open>handle_tcp\<close> runs
  on the payload of every TCP segment. \<open>data\<close> is the pointer (the bytes from there to the
  end of the allocation), \<open>data_len\<close> the length the caller passes, \<open>hostname\<close> the C string
  the caller's buffer holds; the result is the C string it holds afterwards.
\<close>

section \<open>The code\<close>

definition FQDN_MAX :: nat where "FQDN_MAX = 255"

definition TLS_HEADER_LEN :: nat where "TLS_HEADER_LEN = 5"

function server_name_loop :: "bytes \<Rightarrow> nat \<Rightarrow> bytes \<Rightarrow> nat \<Rightarrow> bytes result" where
  "server_name_loop data data_len hostname pos =
     (if pos + 3 < data_len then
        rbind (rd data (pos + 1)) (\<lambda>hi.
        rbind (rd data (pos + 2)) (\<lambda>lo.
          let len = be16_at hi lo in
          if pos + 3 + len > data_len then Inr hostname
          else rbind (rd data pos) (\<lambda>name_type.
            if name_type = 0
            then strncpy_src (drop (pos + 3) data) (min len FQDN_MAX)
            else server_name_loop data data_len hostname (pos + 3 + len))))
      else Inr hostname)"
  by pat_completeness auto
termination
  by (relation "measure (\<lambda>(data, data_len, hostname, pos). data_len - pos)") auto

declare server_name_loop.simps [simp del]

definition parse_server_name_extension :: "bytes \<Rightarrow> nat \<Rightarrow> bytes \<Rightarrow> bytes result" where
  "parse_server_name_extension data data_len hostname = server_name_loop data data_len hostname 2"

function extensions_loop :: "bytes \<Rightarrow> nat \<Rightarrow> bytes \<Rightarrow> nat \<Rightarrow> bytes result" where
  "extensions_loop data data_len hostname pos =
     (if pos + 4 \<le> data_len then
        rbind (rd data (pos + 2)) (\<lambda>hi.
        rbind (rd data (pos + 3)) (\<lambda>lo.
          let len = be16_at hi lo in
          rbind (rd data pos) (\<lambda>t0.
          rbind (rd data (pos + 1)) (\<lambda>t1.
            if t0 = 0 \<and> t1 = 0 then
              if pos + 4 + len > data_len then Inr hostname
              else parse_server_name_extension (drop (pos + 4) data) len hostname
            else extensions_loop data data_len hostname (pos + 4 + len)))))
      else Inr hostname)"
  by pat_completeness auto
termination
  by (relation "measure (\<lambda>(data, data_len, hostname, pos). data_len - pos)") auto

declare extensions_loop.simps [simp del]

definition parse_extensions :: "bytes \<Rightarrow> nat \<Rightarrow> bytes \<Rightarrow> bytes result" where
  "parse_extensions data data_len hostname = extensions_loop data data_len hostname 0"

text \<open>
  \<open>parse_tls_header\<close>, from the session id on (\<open>pos\<close> is behind the fixed length part);
  \<open>data_len\<close> is already cut to the record.
\<close>

definition parse_hello_tail :: "bytes \<Rightarrow> nat \<Rightarrow> byte \<Rightarrow> byte \<Rightarrow> nat \<Rightarrow> bytes \<Rightarrow> bytes result" where
  "parse_hello_tail data data_len major minor pos hostname =
     (if pos + 1 > data_len then Inr hostname else
      rbind (rd data pos) (\<lambda>sid_len.
      let pos = pos + 1 + unat sid_len in
      if pos + 2 > data_len then Inr hostname else
      rbind (rd data pos) (\<lambda>hi. rbind (rd data (pos + 1)) (\<lambda>lo.
      let pos = pos + 2 + be16_at hi lo in
      if pos + 1 > data_len then Inr hostname else
      rbind (rd data pos) (\<lambda>comp_len.
      let pos = pos + 1 + unat comp_len in
      if pos = data_len \<and> major = 3 \<and> minor = 0 then Inr hostname else
      if pos + 2 > data_len then Inr hostname else
      rbind (rd data pos) (\<lambda>hi. rbind (rd data (pos + 1)) (\<lambda>lo.
      let len = be16_at hi lo; pos = pos + 2 in
      if pos + len > data_len then Inr hostname else
      parse_extensions (drop pos data) len hostname)))))))"

definition parse_tls_header :: "bytes \<Rightarrow> nat \<Rightarrow> bytes \<Rightarrow> bytes result" where
  "parse_tls_header data data_len hostname =
     (if data_len < TLS_HEADER_LEN then Inr hostname else
      rbind (rd data 0) (\<lambda>d0. rbind (rd data 2) (\<lambda>d2.
      if d0 AND 0x80 \<noteq> 0 \<and> d2 = 1 then Inr hostname else
      if d0 \<noteq> 0x16 then Inr hostname else
      rbind (rd data 1) (\<lambda>major.
      if major < 3 then Inr hostname else
      rbind (rd data 3) (\<lambda>hi. rbind (rd data 4) (\<lambda>lo.
      let len = be16_at hi lo + TLS_HEADER_LEN; data_len = min data_len len; pos = TLS_HEADER_LEN in
      if data_len < len then Inr hostname else
      if pos + 1 > data_len then Inr hostname else
      rbind (rd data pos) (\<lambda>handshake.
      if handshake \<noteq> 0x01 then Inr hostname else
      parse_hello_tail data data_len major d2 (pos + 38) hostname)))))))"

section \<open>Memory safety\<close>

text \<open>
  Each routine stays inside \<open>data_len\<close> bytes and either leaves the buffer as it is or puts
  a C string of at most \<open>FQDN_MAX\<close> bytes into it.
\<close>

definition sni_result :: "bytes \<Rightarrow> bytes result \<Rightarrow> bool" where
  "sni_result hostname r \<longleftrightarrow>
     (\<exists>h. r = Inr h \<and> (h = hostname \<or> length h \<le> FQDN_MAX \<and> 0 \<notin> set h))"

lemma sni_result_same [simp, intro]: "sni_result h (Inr h)"
  by (simp add: sni_result_def)

lemma sni_result_strncpy:
  "n \<le> length p \<Longrightarrow> n \<le> FQDN_MAX \<Longrightarrow> sni_result hostname (strncpy_src p n)"
  by (auto simp: sni_result_def strncpy_src_in intro: order_trans [OF length_takeWhile_le]
      dest: set_takeWhileD)

lemma server_name_loop_safe:
  "data_len \<le> length data \<Longrightarrow> sni_result hostname (server_name_loop data data_len hostname pos)"
proof (induction data data_len hostname pos rule: server_name_loop.induct)
  case (1 data data_len hostname pos)
  show ?case
  proof (cases "pos + 3 < data_len")
    case True
    let ?len = "be16_at (data ! (pos + 1)) (data ! (pos + 2))"
    have "sni_result hostname (server_name_loop data data_len hostname (pos + 3 + ?len))"
      if "pos + 3 + ?len \<le> data_len" "data ! pos \<noteq> 0"
      using 1 True that by auto
    moreover have "sni_result hostname (strncpy_src (drop (pos + 3) data) (min ?len FQDN_MAX))"
      if "pos + 3 + ?len \<le> data_len"
      using that "1.prems" by (intro sni_result_strncpy) auto
    ultimately show ?thesis
      using True "1.prems" by (subst server_name_loop.simps) (simp add: Let_def)
  qed (subst server_name_loop.simps, simp)
qed

lemma extensions_loop_safe:
  "data_len \<le> length data \<Longrightarrow> sni_result hostname (extensions_loop data data_len hostname pos)"
proof (induction data data_len hostname pos rule: extensions_loop.induct)
  case (1 data data_len hostname pos)
  show ?case
  proof (cases "pos + 4 \<le> data_len")
    case True
    let ?len = "be16_at (data ! (pos + 2)) (data ! (pos + 3))"
    have "sni_result hostname (extensions_loop data data_len hostname (pos + 4 + ?len))"
      if "\<not> (data ! pos = 0 \<and> data ! (pos + 1) = 0)"
      using 1 True that by auto
    moreover have "sni_result hostname
        (parse_server_name_extension (drop (pos + 4) data) ?len hostname)"
      if "pos + 4 + ?len \<le> data_len"
      using that "1.prems"
      by (auto simp: parse_server_name_extension_def intro: server_name_loop_safe)
    ultimately show ?thesis
      using True "1.prems" by (subst extensions_loop.simps) (simp add: Let_def)
  qed (subst extensions_loop.simps, simp)
qed

lemma parse_extensions_safe:
  "data_len \<le> length data \<Longrightarrow> sni_result hostname (parse_extensions data data_len hostname)"
  by (simp add: parse_extensions_def extensions_loop_safe)

lemma parse_hello_tail_safe:
  "data_len \<le> length data \<Longrightarrow>
   sni_result hostname (parse_hello_tail data data_len major minor pos hostname)"
  by (simp add: parse_hello_tail_def Let_def parse_extensions_safe)

lemma parse_tls_header_sni_result:
  assumes "data_len \<le> length data"
  shows "sni_result hostname (parse_tls_header data data_len hostname)"
proof (cases "data_len < TLS_HEADER_LEN")
  case False
  with assms have "5 \<le> length data" "data \<noteq> []"
    by (auto simp: TLS_HEADER_LEN_def)
  with assms show ?thesis
    by (simp add: parse_tls_header_def Let_def TLS_HEADER_LEN_def parse_hello_tail_safe)
qed (simp add: parse_tls_header_def)

section \<open>The client hello of RFC 5246 and the server name extension of RFC 6066\<close>

text \<open>
  The layout the parser is meant to read, as an encoder: extensions are pairs of a two byte
  type and a body, \<open>post\<close> is whatever follows the server name extension.
\<close>

definition tls_ext :: "byte \<times> byte \<Rightarrow> bytes \<Rightarrow> bytes" where
  "tls_ext t body = [fst t, snd t] @ be16 (length body) @ body"

definition sni_body :: "bytes \<Rightarrow> bytes" where
  "sni_body name = be16 (length name + 3) @ [0] @ be16 (length name) @ name"

definition hello_exts :: "((byte \<times> byte) \<times> bytes) list \<Rightarrow> bytes \<Rightarrow> bytes \<Rightarrow> bytes" where
  "hello_exts pre name post =
     concat (map (\<lambda>(t, b). tls_ext t b) pre) @ tls_ext (0, 0) (sni_body name) @ post"

definition hello_body :: "bytes \<Rightarrow> bytes \<Rightarrow> bytes \<Rightarrow> bytes \<Rightarrow> bytes \<Rightarrow> bytes" where
  "hello_body fixed sid ciphers cms exts =
     [1] @ fixed @ [of_nat (length sid)] @ sid @ be16 (length ciphers) @ ciphers
     @ [of_nat (length cms)] @ cms @ be16 (length exts) @ exts"

definition client_hello :: "byte \<Rightarrow> bytes \<Rightarrow> bytes" where
  "client_hello minor body = [0x16, 3, minor] @ be16 (length body) @ body"

lemma length_sni_body [simp, len_simps]: "length (sni_body name) = length name + 5"
  by (simp add: sni_body_def)

lemma length_tls_ext [simp, len_simps]: "length (tls_ext t body) = length body + 4"
  by (simp add: tls_ext_def)

lemma server_name_loop_sni:
  assumes "name \<noteq> []" "length name \<le> FQDN_MAX" "0 \<notin> set name"
  shows "server_name_loop (sni_body name @ rest) (length (sni_body name)) h 2 = Inr name"
proof -
  have "takeWhile (\<lambda>b. b \<noteq> 0) name = name"
    using assms(3) by (auto simp: takeWhile_eq_all_conv)
  moreover have "be16_at (of_nat (length name div 256)) (of_nat (length name mod 256)) = length name"
    using assms(2) by (intro be16_at_be16) (simp add: FQDN_MAX_def)
  moreover have "length name \<noteq> 0" using assms(1) by simp
  ultimately show ?thesis
    using assms(2)
    by (subst server_name_loop.simps)
      (simp add: sni_body_def be16_def nth_append Let_def strncpy_src_in nth_Cons' min_def)
qed

lemma extensions_loop_step:
  assumes "pos + 4 \<le> data_len" "pos + 4 \<le> length data"
    and "\<not> (data ! pos = 0 \<and> data ! (pos + 1) = 0)"
  shows "extensions_loop data data_len h pos
    = extensions_loop data data_len h (pos + 4 + be16_at (data ! (pos + 2)) (data ! (pos + 3)))"
  using assms by (subst extensions_loop.simps) (auto simp: Let_def)

lemma extensions_loop_skip:
  assumes "t \<noteq> (0, 0)" "length body < 65536" "length dn + 4 \<le> data_len"
  shows "extensions_loop (dn @ tls_ext t body @ rest) data_len h (length dn)
       = extensions_loop (dn @ tls_ext t body @ rest) data_len h (length dn + 4 + length body)"
proof -
  let ?d = "dn @ tls_ext t body @ rest"
  have "be16_at (?d ! (length dn + 2)) (?d ! (length dn + 3)) = length body"
    using assms(2) be16_at_be16 [of "length body"] by (simp add: tls_ext_def be16_def nth_append)
  moreover have "\<not> (?d ! length dn = 0 \<and> ?d ! (length dn + 1) = 0)"
    using assms(1) by (cases t) (auto simp: tls_ext_def nth_append)
  ultimately show ?thesis
    using assms(3) extensions_loop_step [of "length dn" data_len ?d h] by simp
qed

lemma extensions_loop_sni:
  assumes "name \<noteq> []" "length name \<le> FQDN_MAX" "0 \<notin> set name"
    and "length dn + length (tls_ext (0, 0) (sni_body name)) \<le> data_len"
  shows "extensions_loop (dn @ tls_ext (0, 0) (sni_body name) @ rest) data_len h (length dn)
       = Inr name"
proof -
  have "length (sni_body name) < 65536"
    using assms(2) by (simp add: FQDN_MAX_def)
  then show ?thesis
    using assms(4) be16_at_be16 [of "length (sni_body name)"]
      server_name_loop_sni [OF assms(1-3), of rest h]
    by (subst extensions_loop.simps)
      (simp add: tls_ext_def be16_def nth_append Let_def parse_server_name_extension_def)
qed

lemma extensions_loop_hello_exts:
  assumes "name \<noteq> []" "length name \<le> FQDN_MAX" "0 \<notin> set name"
    and "list_all (\<lambda>(t, b). t \<noteq> (0, 0) \<and> length b < 65536) pre"
    and "length dn + length (hello_exts pre name []) \<le> data_len"
  shows "extensions_loop (dn @ hello_exts pre name post) data_len h (length dn) = Inr name"
  using assms(4,5)
proof (induction pre arbitrary: dn)
  case Nil
  then show ?case
    using extensions_loop_sni [OF assms(1-3), of dn] by (simp add: hello_exts_def)
next
  case (Cons e pre)
  obtain t b where e: "e = (t, b)" by (cases e)
  have eq: "hello_exts (e # pre) name post = tls_ext t b @ hello_exts pre name post" for post
    by (simp add: hello_exts_def e)
  have "extensions_loop (dn @ hello_exts (e # pre) name post) data_len h (length dn)
      = extensions_loop ((dn @ tls_ext t b) @ hello_exts pre name post) data_len h
          (length (dn @ tls_ext t b))"
    using Cons.prems extensions_loop_skip [of t b dn data_len "hello_exts pre name post" h]
    by (simp add: eq [unfolded e] e add.commute add.left_commute)
  also have "\<dots> = Inr name"
    using Cons.prems by (intro Cons.IH) (simp_all add: eq [unfolded e] e)
  finally show ?case .
qed

lemma unat_of_nat_byte: "n < 256 \<Longrightarrow> unat (of_nat n :: byte) = n"
  by (simp add: unsigned_of_nat take_bit_nat_eq_self)

lemma parse_hello_tail_encode:
  assumes "length sid < 256" "length ciphers < 65536" "length cms < 256"
    and "length exts < 65536" "length pre = pos"
    and "d = pre @ [of_nat (length sid)] @ sid @ be16 (length ciphers) @ ciphers
           @ [of_nat (length cms)] @ cms @ be16 (length exts) @ exts @ rest"
    and "data_len = length d - length rest"
  shows "parse_hello_tail d data_len major minor pos h = parse_extensions (exts @ rest) (length exts) h"
proof -
  let ?p2 = "pos + 1 + length sid"
  let ?p3 = "?p2 + 2 + length ciphers"
  let ?p4 = "?p3 + 1 + length cms"
  have sid: "d ! pos = of_nat (length sid)"
    and c: "be16_at (d ! ?p2) (d ! (?p2 + 1)) = length ciphers"
    and cms: "d ! ?p3 = of_nat (length cms)"
    and e: "be16_at (d ! ?p4) (d ! (?p4 + 1)) = length exts"
    using assms(2,4-6) be16_at_be16 [of "length ciphers"] be16_at_be16 [of "length exts"]
    by (simp_all add: be16_def nth_append nth_Cons')
  let ?A = "pre @ [of_nat (length sid)] @ sid @ be16 (length ciphers) @ ciphers
      @ [of_nat (length cms)] @ cms @ be16 (length exts)"
  have "d = ?A @ exts @ rest" "length ?A = ?p4 + 2"
    using assms(5,6) by simp_all
  then have x: "drop (?p4 + 2) d = exts @ rest"
    by (metis append_eq_conv_conj)
  have len: "length d = ?p4 + 2 + length exts + length rest" "data_len = ?p4 + 2 + length exts"
    using assms(5-7) by simp_all
  show ?thesis
    using sid c cms e x len assms(1,3)
    by (simp add: parse_hello_tail_def Let_def unat_of_nat_byte add.assoc add.commute
        add.left_commute)
qed

lemma parse_tls_header_encode:
  assumes "length fixed = 37" "length sid < 256" "length ciphers < 65536" "length cms < 256"
    and "length exts < 65536" and b: "body = hello_body fixed sid ciphers cms exts"
    and "length body < 65536" and "length (client_hello minor body) \<le> data_len"
  shows "parse_tls_header (client_hello minor body @ rest) data_len h
       = parse_extensions (exts @ rest) (length exts) h"
proof -
  let ?d = "client_hello minor body @ rest"
  let ?pre = "[0x16, 3, minor] @ be16 (length body) @ [1] @ fixed"
  let ?n = "length (client_hello minor body)"
  have n: "?n = length body + 5"
    by (simp add: client_hello_def)
  have d: "?d = ?pre @ [of_nat (length sid)] @ sid @ be16 (length ciphers) @ ciphers
      @ [of_nat (length cms)] @ cms @ be16 (length exts) @ exts @ rest"
    by (simp add: client_hello_def b hello_body_def)
  have tail: "parse_hello_tail ?d ?n 3 minor 43 h = parse_extensions (exts @ rest) (length exts) h"
    using assms(1-5) by (intro parse_hello_tail_encode [OF _ _ _ _ _ d]) simp_all
  have len: "be16_at (?d ! 3) (?d ! 4) + TLS_HEADER_LEN = ?n"
    using be16_at_be16 [OF assms(7)] by (simp add: client_hello_def be16_def TLS_HEADER_LEN_def)
  have bytes: "?d ! 0 = 0x16" "?d ! Suc 0 = 3" "?d ! 2 = minor" "?d ! 5 = 1"
    by (simp_all add: client_hello_def be16_def b hello_body_def)
  have "length ?d = ?n + length rest" "body \<noteq> []"
    using assms(1) by (simp_all add: b hello_body_def)
  then show ?thesis
    using assms(8) tail len bytes n
    by (simp add: parse_tls_header_def TLS_HEADER_LEN_def Let_def min_def)
qed

lemma parse_extensions_hello_exts:
  assumes "name \<noteq> []" "length name \<le> FQDN_MAX" "0 \<notin> set name"
    and "list_all (\<lambda>(t, b). t \<noteq> (0, 0) \<and> length b < 65536) pre"
  shows "parse_extensions (hello_exts pre name post @ rest) (length (hello_exts pre name post)) h
       = Inr name"
proof -
  have "hello_exts pre name post @ rest = [] @ hello_exts pre name (post @ rest)"
    by (simp add: hello_exts_def)
  moreover have "length (hello_exts pre name post)
      \<ge> length (hello_exts pre name [])"
    by (simp add: hello_exts_def)
  ultimately show ?thesis
    using extensions_loop_hello_exts [OF assms, of "[]" _ "post @ rest" h]
    by (simp add: parse_extensions_def)
qed

section \<open>Properties\<close>

text \<open>
  C15: the server name search is memory safe on every payload. Whatever the bytes are, it
  returns, never reads behind the \<open>data_len\<close> bytes it was given, and the buffer holds
  either what it held before or a C string of at most 255 bytes (so it fits 512).
\<close>

theorem tls_parser_memory_safe:
  assumes "data_len \<le> length data"
  shows "\<exists>h. parse_tls_header data data_len hostname = Inr h \<and>
      (h = hostname \<or> length h \<le> 255 \<and> 0 \<notin> set h)"
  using parse_tls_header_sni_result [OF assms, of hostname]
  by (simp add: sni_result_def FQDN_MAX_def)

theorem tls_parser_memory_safe_witness:
  "\<exists>h. parse_tls_header [0x16, 3, 1, 0, 2, 1, 0] 7 [] = Inr h \<and>
      (h = [] \<or> length h \<le> 255 \<and> 0 \<notin> set h)"
  using tls_parser_memory_safe [of 7 "[0x16, 3, 1, 0, 2, 1, 0]" "[]"] by simp

text \<open>
  C14: the parser finds the name a well-formed client hello carries. For every client hello
  in the layout of RFC 5246 whose extensions hold a server name entry (RFC 6066) behind any
  other extensions, and whatever bytes follow the record, the buffer holds exactly that name.
\<close>

theorem tls_parser_finds_server_name:
  assumes "length fixed = 37" and "length sid < 256" and "length ciphers < 65536"
    and "length cms < 256" and "length (hello_exts pre name post) < 65536"
    and "body = hello_body fixed sid ciphers cms (hello_exts pre name post)"
    and "length body < 65536" and "length (client_hello minor body) \<le> data_len"
    and "name \<noteq> []" and "length name \<le> 255" and "0 \<notin> set name"
    and "list_all (\<lambda>(t, b). t \<noteq> (0, 0) \<and> length b < 65536) pre"
  shows "parse_tls_header (client_hello minor body @ rest) data_len hostname = Inr name"
  using parse_tls_header_encode [OF assms(1-8)] parse_extensions_hello_exts [of name pre] assms(9-12)
  by (simp add: FQDN_MAX_def)

theorem tls_parser_finds_server_name_witness:
  "parse_tls_header (client_hello 1 (hello_body (replicate 37 0) [] [0x13, 0x01] [0]
      (hello_exts [((0, 10), [0, 2, 0, 29])] (cstr ''a.io'') [])) @ [7]) 74 [] = Inr (cstr ''a.io'')"
  by (rule tls_parser_finds_server_name [where fixed = "replicate 37 0" and sid = "[]"
        and ciphers = "[0x13, 0x01]" and cms = "[0]" and pre = "[((0, 10), [0, 2, 0, 29])]"
        and post = "[]"])
    (simp_all add: cstr_def hello_exts_def hello_body_def client_hello_def)

end
