(* ===== verification/Http.thy ===== *)
theory Http
  imports Util
begin

text \<open>
  \<open>http.c\<close>: the rewriting of plain HTTP requests for the proxy. \<open>find_data\<close> searches a word
  in the segment, \<open>patch_http_url\<close> puts \<open>http://<host>\<close> in front of the request target.
  \<open>data\<close> is the pointer (the bytes to the end of the allocation), \<open>data_len\<close> the length.
  Also \<open>next_header\<close> and \<open>get_header\<close>, which the library keeps beside them.
\<close>

section \<open>find_data\<close>

definition tolower :: "byte \<Rightarrow> byte" where
  "tolower c = (if 65 \<le> c \<and> c \<le> 90 then c + 32 else c)"

text \<open>\<open>strncasecmp(val, data, strlen(val)) == 0\<close>; it stops at the first difference.\<close>

fun strncaseeq :: "bytes \<Rightarrow> bytes \<Rightarrow> bool result" where
  "strncaseeq [] data = Inr True"
| "strncaseeq (v # vs) [] = Inl OobRead"
| "strncaseeq (v # vs) (d # ds) =
     (if tolower v = tolower d then strncaseeq vs ds else Inr False)"

text \<open>The inner loop: \<open>while (data[0] != val[0] && data_len > 2)\<close>; \<open>off\<close> counts the steps.\<close>

fun find_skip :: "byte \<Rightarrow> bytes \<Rightarrow> nat \<Rightarrow> nat \<Rightarrow> (bytes \<times> nat \<times> nat) result" where
  "find_skip v0 [] data_len off = Inl OobRead"
| "find_skip v0 (d # ds) data_len off =
     (if d \<noteq> v0 \<and> data_len > 2 then find_skip v0 ds (data_len - 1) (off + 1)
      else Inr (d # ds, data_len, off))"

lemma find_skip_len:
  "find_skip v0 data len off = Inr (data', len', off') \<Longrightarrow> 2 \<le> len \<Longrightarrow> 2 \<le> len' \<and> len' \<le> len"
  by (induction v0 data len off rule: find_skip.induct) (fastforce split: if_splits)+

function find_loop :: "bytes \<Rightarrow> bytes \<Rightarrow> nat \<Rightarrow> nat \<Rightarrow> nat option result" where
  "find_loop val data data_len off =
     (if data_len > 2 then
        rbind (find_skip (val ! 0) data data_len off) (\<lambda>(data', data_len', off').
        rbind (strncaseeq val data') (\<lambda>found.
          if found then Inr (Some off')
          else find_loop val (drop 1 data') (data_len' - 1) (off' + 1)))
      else Inr None)"
  by pat_completeness auto
termination
  by (relation "measure (\<lambda>(val, data, data_len, off). data_len)")
    (auto dest: find_skip_len)

declare find_loop.simps [simp del]

text \<open>The offset of the find, \<open>None\<close> for the null pointer.\<close>

definition find_data :: "bytes \<Rightarrow> nat \<Rightarrow> bytes \<Rightarrow> nat option result" where
  "find_data data data_len val = find_loop val data data_len 0"

section \<open>patch_http_url\<close>

text \<open>
  \<open>patch_buffer\<close> has \<open>2*MTU\<close> elements of type \<open>uint_t\<close> (\<open>unsigned int\<close> of the platform's
  \<open>sys/types.h\<close>).
\<close>

definition PATCH_BUFFER_SIZE :: nat where "PATCH_BUFFER_SIZE = 2 * MTU * 4"

text \<open>\<open>while (*host != '\<open>\\r\<close>' && length < 511)\<close> copies the host name.\<close>

fun copy_host :: "bytes \<Rightarrow> nat \<Rightarrow> bytes result" where
  "copy_host [] n = Inl OobRead"
| "copy_host (c # p) n =
     (if c \<noteq> 13 \<and> n < 511 then rbind (copy_host p (n + 1)) (\<lambda>h. Inr (c # h)) else Inr [])"

definition http_words :: "bytes list" where
  "http_words = map cstr [''GET '', ''POST '', ''PUT '', ''DELETE '', ''HEAD '', ''OPTIONS '', ''PATCH '']"

text \<open>The \<open>if\<close>/\<open>else if\<close> chain: the first word that is found, and where.\<close>

fun find_word :: "bytes \<Rightarrow> nat \<Rightarrow> bytes list \<Rightarrow> (bytes \<times> nat) option result" where
  "find_word data data_len [] = Inr None"
| "find_word data data_len (w # ws) =
     rbind (find_data data data_len w) (\<lambda>r. case r of
       Some pos \<Rightarrow> Inr (Some (w, pos)) | None \<Rightarrow> find_word data data_len ws)"

text \<open>\<open>data[i] == w[0] && data[i+1] == w[1] && ...\<close>, left to right.\<close>

fun starts_at :: "bytes \<Rightarrow> bytes \<Rightarrow> bool result" where
  "starts_at [] p = Inr True"
| "starts_at (w # ws) [] = Inl OobRead"
| "starts_at (w # ws) (c # p) = (if c = w then starts_at ws p else Inr False)"

definition patch_http_url :: "bytes \<Rightarrow> nat \<Rightarrow> bytes option result" where
  "patch_http_url data data_len =
     rbind (find_data data data_len (cstr ''Host: '')) (\<lambda>host.
     case host of None \<Rightarrow> Inr None | Some h \<Rightarrow>
     rbind (copy_host (drop (h + 6) data) 0) (\<lambda>hostname.
     rbind (find_word data data_len http_words) (\<lambda>found.
     case found of None \<Rightarrow> Inr None | Some (word, pos) \<Rightarrow>
     let pos1 = pos + length word in
     rbind (starts_at (cstr ''http:'') (drop pos1 data)) (\<lambda>patched.
     if patched then Inr None else
     rbind (rd_bytes data 0 pos1) (\<lambda>a.
     if data_len < pos1 then Inl OobRead else
     rbind (rd_bytes data pos1 (data_len - pos1)) (\<lambda>b.
     if data_len + 7 + length hostname > PATCH_BUFFER_SIZE then Inl OobWrite else
     Inr (Some (a @ cstr ''http://'' @ hostname @ b))))))))"

section \<open>next_header and get_header\<close>

text \<open>\<open>while (*len > 2 && (*data)[0] != '\<open>\\r\<close>' && (*data)[1] != '\<open>\\n\<close>')\<close>.\<close>

fun header_skip :: "bytes \<Rightarrow> nat \<Rightarrow> (bytes \<times> nat) result" where
  "header_skip data len =
     (if len > 2 then
        rbind (rd data 0) (\<lambda>c0. if c0 = 13 then Inr (data, len) else
        rbind (rd data 1) (\<lambda>c1. if c1 = 10 then Inr (data, len) else
          header_skip (drop 1 data) (len - 1)))
      else Inr (data, len))"

declare header_skip.simps [simp del]

function header_span :: "bytes \<Rightarrow> nat \<Rightarrow> nat \<Rightarrow> nat result" where
  "header_span data len header_len =
     (if len > header_len + 1 then
        rbind (rd data header_len) (\<lambda>c0. if c0 = 13 then Inr header_len else
        rbind (rd data (header_len + 1)) (\<lambda>c1. if c1 = 10 then Inr header_len else
          header_span data len (header_len + 1)))
      else Inr header_len)"
  by pat_completeness auto
termination by (relation "measure (\<lambda>(data, len, header_len). len - header_len)") auto

declare header_span.simps [simp del]

text \<open>The new \<open>*data\<close> and \<open>*len\<close>, and the length of the next header.\<close>

definition next_header :: "bytes \<Rightarrow> nat \<Rightarrow> (bytes \<times> nat \<times> nat) result" where
  "next_header data len =
     rbind (header_skip data len) (\<lambda>(data, len).
     let data = drop 2 data; len = size_sub len 2 in
     rbind (header_span data len 0) (\<lambda>header_len. Inr (data, len, header_len)))"

section \<open>The search finds the first occurrence\<close>

text \<open>\<open>val\<close> stands at \<open>data\<close>: the first byte exactly, the others up to case.\<close>

definition word_at :: "bytes \<Rightarrow> bytes \<Rightarrow> bool" where
  "word_at val data \<longleftrightarrow> length val \<le> length data \<and> data ! 0 = val ! 0 \<and>
     map tolower (take (length val) data) = map tolower val"

fun first_word :: "bytes \<Rightarrow> bytes \<Rightarrow> nat option" where
  "first_word val [] = None"
| "first_word val (d # ds) =
     (if word_at val (d # ds) then Some 0 else map_option Suc (first_word val ds))"

lemma first_word_SomeD: "first_word val data = Some n \<Longrightarrow> word_at val (drop n data)"
  by (induction val data arbitrary: n rule: first_word.induct) (auto split: if_splits)

lemma first_word_length:
  "first_word val data = Some n \<Longrightarrow> val \<noteq> [] \<Longrightarrow> n + length val \<le> length data"
  using first_word_SomeD [of val data n] by (cases "n \<le> length data") (auto simp: word_at_def)

lemma strncaseeq_in:
  "length val \<le> length data \<Longrightarrow>
   strncaseeq val data = Inr (map tolower (take (length val) data) = map tolower val)"
  by (induction val data rule: strncaseeq.induct) auto

text \<open>A last byte that no byte of the word equals stops every comparison in time.\<close>

definition stops :: "bytes \<Rightarrow> bytes \<Rightarrow> bool" where
  "stops val data \<longleftrightarrow> data \<noteq> [] \<and> tolower (last data) \<notin> tolower ` set val"

lemma stops_tl: "stops val (d # ds) \<Longrightarrow> ds \<noteq> [] \<Longrightarrow> stops val ds"
  by (simp add: stops_def)

lemma strncaseeq_stops:
  "stops val data \<Longrightarrow> strncaseeq val data =
     Inr (length val \<le> length data \<and> map tolower (take (length val) data) = map tolower val)"
proof (induction val data rule: strncaseeq.induct)
  case (3 v vs d ds)
  then show ?case
    by (cases "ds = []") (auto simp: stops_def split: if_splits)
qed (auto simp: stops_def)

text \<open>One step of the two loops together, at a place where the word does not stand.\<close>

lemma find_loop_miss:
  assumes "3 < len" "d = val ! 0 \<Longrightarrow> strncaseeq val (d # ds) = Inr False"
  shows "find_loop val (d # ds) len off = find_loop val ds (len - 1) (off + 1)"
proof (cases "d = val ! 0")
  case True
  with assms show ?thesis by (subst find_loop.simps) simp
next
  case False
  with assms(1) show ?thesis by (subst (1 2) find_loop.simps) auto
qed

lemma find_loop_hit:
  assumes "2 < len" "word_at val (d # ds)"
  shows "find_loop val (d # ds) len off = Inr (Some off)"
proof -
  have "strncaseeq val (d # ds) = Inr True"
    using assms(2) strncaseeq_in [of val "d # ds"] by (simp only: word_at_def simp_thms)
  moreover have "d = val ! 0"
    using assms(2) by (simp add: word_at_def)
  ultimately show ?thesis using assms(1)    by (subst find_loop.simps) simp
qed

lemma find_loop_first:
  assumes "first_word val data = Some n" "3 \<le> length val"
  shows "find_loop val data (length data) off = Inr (Some (off + n))"
  using assms
proof (induction data arbitrary: n off)
  case (Cons d ds)
  have len: "n + length val \<le> length (d # ds)"
    using Cons.prems(2) by (intro first_word_length [OF Cons.prems(1)]) auto
  show ?case
  proof (cases "word_at val (d # ds)")
    case True
    with Cons.prems len find_loop_hit [of "length (d # ds)" val d ds off] show ?thesis
      by auto
  next
    case False
    with Cons.prems obtain m where m: "first_word val ds = Some m" "n = Suc m"
      by auto
    have "strncaseeq val (d # ds) = Inr False" if "d = val ! 0"
      using False that len strncaseeq_in [of val "d # ds"] by (auto simp: word_at_def)
    then have "find_loop val (d # ds) (length (d # ds)) off = find_loop val ds (length ds) (off + 1)"
      using len m Cons.prems(2) find_loop_miss [of "length (d # ds)" d val ds off] by auto
    with Cons.IH [OF m(1) Cons.prems(2), of "off + 1"] m(2) show ?thesis by simp
  qed
qed simp

lemma find_loop_short:
  "stops val ds \<Longrightarrow> 3 \<le> length val \<Longrightarrow> length ds \<le> 2 \<Longrightarrow>
   find_loop val (d # ds) (Suc (length ds)) off = Inr None"
proof -
  assume s: "stops val ds" and v: "3 \<le> length val" and l: "length ds \<le> 2"
  have sd: "stops val (d # ds)" using s by (auto simp: stops_def)
  have no: "strncaseeq val (d # ds) = Inr False \<or> length ds = 2"
    using strncaseeq_stops [OF sd] v l by auto
  have "strncaseeq val ds = Inr False"
    using strncaseeq_stops [OF s] v l by auto
  moreover have "map tolower (take (length val) (d # ds)) \<noteq> map tolower val"
  proof
    assume eq: "map tolower (take (length val) (d # ds)) = map tolower val"
    then have "length (take (length val) (d # ds)) = length val"
      by (metis length_map)
    with v l have "take (length val) (d # ds) = d # ds" by simp
    with eq have "tolower (last ds) \<in> tolower ` set val"
      using s by (metis image_set last_ConsR last_in_set last_map list.map_disc_iff list.set_map
          list.simps(3) stops_def)
    with s show False by (simp add: stops_def)
  qed
  ultimately show ?thesis
    using strncaseeq_stops [OF sd] s l
    by (cases ds; cases "tl ds") (auto simp: find_loop.simps stops_def)
qed

lemma find_loop_none:
  assumes "first_word val data = None" "stops val data" "3 \<le> length val"
  shows "find_loop val data (length data) off = Inr None"
  using assms
proof (induction data arbitrary: off)
  case (Cons d ds)
  have miss: "\<not> word_at val (d # ds)" "first_word val ds = None"
    using Cons.prems(1) by (auto split: if_splits)
  show ?case
  proof (cases "length ds \<le> 2")
    case True
    then show ?thesis
    proof (cases "ds = []")
      case False
      with True Cons.prems show ?thesis
        using find_loop_short [of val ds d off] by (simp add: stops_tl)
    qed (simp add: find_loop.simps)
  next
    case False
    then have "ds \<noteq> []" by auto
    moreover have "strncaseeq val (d # ds) = Inr False" if "d = val ! 0"
      using strncaseeq_stops [OF Cons.prems(2)] miss(1) that by (auto simp: word_at_def)
    ultimately show ?thesis
      using False Cons.IH [OF miss(2) stops_tl [OF Cons.prems(2)] Cons.prems(3), of "off + 1"]
        find_loop_miss [of "length (d # ds)" d val ds off] by simp
  qed
qed (simp add: find_loop.simps)

lemma find_data_first_word:
  assumes "stops val data" "3 \<le> length val"
  shows "find_data data (length data) val = Inr (first_word val data)"
  using find_loop_first [of val data _ 0] find_loop_none [of val data 0] assms
  by (cases "first_word val data") (simp_all add: find_data_def)

section \<open>The rewriting against a reference\<close>

text \<open>
  The reference: the first \<open>Host: \<close> names the host (up to the carriage return, at most 511
  bytes), the first word of the list that occurs marks the request target, and the result
  has \<open>http://<host>\<close> in front of a target that does not begin with \<open>http:\<close> already.
\<close>

fun first_method :: "bytes \<Rightarrow> bytes list \<Rightarrow> (bytes \<times> nat) option" where
  "first_method data [] = None"
| "first_method data (w # ws) =
     (case first_word w data of Some pos \<Rightarrow> Some (w, pos) | None \<Rightarrow> first_method data ws)"

definition host_of :: "bytes \<Rightarrow> nat \<Rightarrow> bytes" where
  "host_of data h = take 511 (takeWhile (\<lambda>c. c \<noteq> 13) (drop (h + 6) data))"

definition patch_ref :: "bytes \<Rightarrow> bytes option" where
  "patch_ref data =
     (case first_word (cstr ''Host: '') data of None \<Rightarrow> None | Some h \<Rightarrow>
      case first_method data http_words of None \<Rightarrow> None | Some (w, pos) \<Rightarrow>
        let pos1 = pos + length w in
        if take 5 (drop pos1 data) = cstr ''http:'' then None
        else Some (take pos1 data @ cstr ''http://'' @ host_of data h @ drop pos1 data))"

lemma first_word_avoids:
  assumes "first_word val data = Some n" "tolower (data ! k) \<notin> tolower ` set val" "k < length data"
  shows "k < n \<or> n + length val \<le> k"
proof (rule ccontr)
  assume "\<not> ?thesis"
  then have k: "n \<le> k" "k - n < length val" by auto
  have w: "word_at val (drop n data)"
    using assms(1) by (rule first_word_SomeD)
  then have "map tolower (take (length val) (drop n data)) ! (k - n) = map tolower val ! (k - n)"
    by (simp only: word_at_def)
  moreover have "k - n < length (take (length val) (drop n data))"
    using k w by (auto simp: word_at_def)
  ultimately have "tolower (data ! k) = tolower (val ! (k - n))"
    using k by (simp add: nth_map)
  with k assms(2) show False by auto
qed

lemma copy_host_cr:
  "13 \<in> set p \<Longrightarrow> n \<le> 511 \<Longrightarrow>
   copy_host p n = Inr (take (511 - n) (takeWhile (\<lambda>c. c \<noteq> 13) p))"
proof (induction p n rule: copy_host.induct)
  case (2 c p n)
  show ?case
  proof (cases "n < 511")
    case True
    then have "511 - n = Suc (510 - n)" by simp
    with 2 True show ?thesis by auto
  next
    case False
    with 2 show ?thesis by simp
  qed
qed simp

lemma starts_at_stop:
  "p \<noteq> [] \<Longrightarrow> last p \<notin> set w \<Longrightarrow> starts_at w p = Inr (take (length w) p = w)"
proof (induction w p rule: starts_at.induct)
  case (3 w ws c p)
  then show ?case by (cases "p = []") (auto split: if_splits)
qed simp_all

lemma find_word_first_method:
  assumes "\<forall>w \<in> set ws. stops w data \<and> 3 \<le> length w"
  shows "find_word data (length data) ws = Inr (first_method data ws)"
  using assms by (induction ws) (auto simp: find_data_first_word split: option.splits)

lemma first_method_SomeD:
  "first_method data ws = Some (w, pos) \<Longrightarrow> w \<in> set ws \<and> first_word w data = Some pos"
  by (induction ws) (auto split: option.splits)

lemma http_words_code:
  "http_words = [[71, 69, 84, 32], [80, 79, 83, 84, 32], [80, 85, 84, 32], [68, 69, 76, 69, 84, 69, 32],
     [72, 69, 65, 68, 32], [79, 80, 84, 73, 79, 78, 83, 32], [80, 65, 84, 67, 72, 32]]"
  by (simp add: http_words_def cstr_def)

lemma http_words_avoid:
  "w \<in> set http_words \<Longrightarrow> 3 \<le> length w \<and> tolower 10 \<notin> tolower ` set w"
  by (auto simp: http_words_code tolower_def)

lemma host_word_avoids:
  "tolower 10 \<notin> tolower ` set (cstr ''Host: '')" "tolower 13 \<notin> tolower ` set (cstr ''Host: '')"
  by (simp_all add: cstr_def tolower_def)

lemma http_prefix: "10 \<notin> set (cstr ''http:'')" "length (cstr ''http:'') = 5"
  by (simp_all add: cstr_def)

lemma patch_http_url_ref:
  assumes data: "data = body @ [13, 10]" and "length data \<le> 65535"
  shows "patch_http_url data (length data) = Inr (patch_ref data)"
proof -
  let ?H = "cstr ''Host: ''"
  have H3: "length ?H = 6" by (simp add: cstr_def)
  have fH: "find_data data (length data) ?H = Inr (first_word ?H data)"
    using host_word_avoids(1) H3 by (intro find_data_first_word) (simp_all add: stops_def data)
  have fW: "find_word data (length data) http_words = Inr (first_method data http_words)"
    using http_words_avoid by (intro find_word_first_method) (simp add: stops_def data)
  show ?thesis
  proof (cases "first_word ?H data")
    case None
    then show ?thesis by (simp add: patch_http_url_def patch_ref_def fH)
  next
    case (Some h)
    have "length body < h \<or> h + 6 \<le> length body"
      using first_word_avoids [OF Some, of "length body"] host_word_avoids(2) H3
      by (simp add: data)
    moreover have "h + 6 \<le> length data"
      using first_word_length [OF Some] H3 by (metis list.size(3) zero_neq_numeral)
    ultimately have "13 \<in> set (drop (h + 6) data)"
      by (simp add: data)
    then have host: "copy_host (drop (h + 6) data) 0 = Inr (host_of data h)"
      by (simp add: copy_host_cr host_of_def)
    show ?thesis
    proof (cases "first_method data http_words")
      case None
      then show ?thesis by (simp add: patch_http_url_def patch_ref_def fH fW Some host)
    next
      case m: (Some wp)
      obtain w pos where wp: "wp = (w, pos)" by (cases wp)
      have w: "w \<in> set http_words" "first_word w data = Some pos"
        using first_method_SomeD m wp by blast+
      have "pos + length w \<le> length data"
        using http_words_avoid [OF w(1)] by (intro first_word_length [OF w(2)]) auto
      moreover have "length body + 1 < pos \<or> pos + length w \<le> length body + 1"
        using first_word_avoids [OF w(2), of "length body + 1"] http_words_avoid [OF w(1)]
        by (simp add: data nth_append)
      ultimately have pos1: "pos + length w < length data"
        using http_words_avoid [OF w(1)] by (auto simp: data)
      have "last (drop (pos + length w) data) = 10" "drop (pos + length w) data \<noteq> []"
        using pos1 by (auto simp: last_drop data)
      then have st: "starts_at (cstr ''http:'') (drop (pos + length w) data)
          = Inr (take 5 (drop (pos + length w) data) = cstr ''http:'')"
        using starts_at_stop [of "drop (pos + length w) data" "cstr ''http:''"]
        by (simp add: http_prefix)
      have "length (host_of data h) \<le> 511" by (simp add: host_of_def)
      then have "\<not> length data + 7 + length (host_of data h) > PATCH_BUFFER_SIZE"
        using assms(2) by (simp add: PATCH_BUFFER_SIZE_def MTU_def)
      with pos1 show ?thesis
        by (simp add: patch_http_url_def patch_ref_def fH fW Some host m wp Let_def st)
    qed
  qed
qed

section \<open>Properties\<close>

text \<open>
  on a segment that ends in a line end the two nested loops of \<open>find_data\<close> are memory safe
  and return the first place where the word stands (its first byte exactly, the others up to
  case), and the null pointer when there is none.
\<close>

theorem find_data_is_first_occurrence:
  assumes "data \<noteq> []" and "last data = 10" and "3 \<le> length val"
    and "\<forall>v \<in> set val. tolower v \<noteq> 10"
  shows "find_data data (length data) val = Inr (first_word val data)"
  using assms by (intro find_data_first_word) (auto simp: stops_def tolower_def)

theorem find_data_is_first_occurrence_witness:
  "find_data (cstr ''xhost HOst '' @ [10]) (length (cstr ''xhost HOst '' @ [10])) (cstr ''HOST '')
   = Inr (Some (length (cstr ''xhost '')))"
  using find_data_is_first_occurrence [of "cstr ''xhost HOst '' @ [10]" "cstr ''HOST ''"]
  by (simp add: cstr_def tolower_def word_at_def)



text \<open>
  \<open>find_data\<close> compares past the end of a segment. A segment of which no byte is \<open>H\<close> but
  for a final \<open>Ho\<close> makes the search for \<open>Host: \<close> read behind the allocation.
\<close>

theorem find_data_reads_past_segment:
  assumes "pre \<noteq> []" and "72 \<notin> set pre"
  shows "find_data (pre @ [72, 111]) (length pre + 2) (cstr ''Host: '') = Inl OobRead"
proof -
  have "find_skip 72 (pre @ [72, 111]) (length pre + 2) off = Inr ([72, 111], 2, off + length pre)"
    for off
    using assms(2) by (induction pre arbitrary: off) auto
  then show ?thesis
    using assms(1) by (simp add: find_data_def find_loop.simps cstr_def tolower_def)
qed

theorem find_data_reads_past_segment_witness:
  "find_data (cstr ''GET /Ho'') (length (cstr ''GET /Ho'')) (cstr ''Host: '') = Inl OobRead"
  using find_data_reads_past_segment [of "cstr ''GET /''"]
  by (simp add: cstr_def)

end
