(* ===== verification/Http_Headers.thy ===== *)
theory Http_Headers
  imports Http
begin

text \<open>
  \<open>get_header\<close> of \<open>http.c\<close>: the value of a header field of a request, found by walking over the lines
  with \<open>next_header\<close>. On a request made of lines it is the value of the first line with that name.
\<close>

section \<open>get_header\<close>

text \<open>\<open>isblank\<close>: a space or a tab.\<close>

definition isblank :: "byte \<Rightarrow> bool" where
  "isblank c \<longleftrightarrow> c = 32 \<or> c = 9"

text \<open>\<open>while (header_len < len && isblank(data[header_len])) header_len++;\<close>\<close>

function eat_blanks :: "bytes \<Rightarrow> nat \<Rightarrow> nat \<Rightarrow> nat result" where
  "eat_blanks data len header_len =
     (if header_len < len then
        rbind (rd data header_len) (\<lambda>c. if isblank c then eat_blanks data len (header_len + 1) else Inr header_len)
      else Inr header_len)"
  by pat_completeness auto
termination by (relation "measure (\<lambda>(data, len, header_len). len - header_len)") auto

declare eat_blanks.simps [simp del]

text \<open>
  \<open>strncpy(value, p, n); value[n] = 0\<close>: \<open>n\<close> bytes are written, with zeros behind the end of the source,
  and the terminator; \<open>cap\<close> is the size of the block behind \<open>value\<close>.
\<close>

definition copy_value :: "bytes \<Rightarrow> nat \<Rightarrow> nat \<Rightarrow> bytes result" where
  "copy_value p n cap =
     rbind (strncpy_src p n) (\<lambda>src.
       if cap < n + 1 then Inl OobWrite else Inr (src @ replicate (n - length src) 0 @ [0]))"

lemma header_skip_shorter: "header_skip data len = Inr (data', len') \<Longrightarrow> length data' \<le> length data"
proof (induction data len rule: header_skip.induct)
  case (1 data len)
  from "1.prems" have "data' = data \<or> 2 < len \<and> (\<exists>c0 c1. rd data 0 = Inr c0 \<and> c0 \<noteq> 13 \<and> rd data 1 = Inr c1 \<and> c1 \<noteq> 10
      \<and> header_skip (drop 1 data) (len - 1) = Inr (data', len'))"
    by (subst (asm) header_skip.simps) (auto simp: rbind_eq_Inr split: if_splits)
  then show ?case using "1.IH" by fastforce
qed

lemma next_header_shorter:
  assumes "next_header data len = Inr (data', len', n)" "n \<noteq> 0"
  shows "length data' < length data"
proof -
  obtain d l where d: "header_skip data len = Inr (d, l)" "data' = drop 2 d"
    "header_span data' len' 0 = Inr n"
    using assms(1) by (auto simp: next_header_def Let_def rbind_eq_Inr)
  then have "data' \<noteq> []" using assms(2) by (cases data') (auto simp: header_span.simps rd_def split: if_splits)
  then show ?thesis using d(2) header_skip_shorter [OF d(1)] by (cases "length d \<le> 2") auto
qed

text \<open>\<open>value\<close> is \<open>None\<close> for the null pointer, else the size of its block; the result is what is returned
  and what is stored.\<close>

function get_header :: "bytes \<Rightarrow> bytes \<Rightarrow> nat \<Rightarrow> nat option \<Rightarrow> (int \<times> bytes) result" where
  "get_header header data data_len val =
     (case next_header data data_len of
        Inl e \<Rightarrow> Inl e
      | Inr (data', data_len', len) \<Rightarrow>
          if len \<noteq> 0 then
            rbind (if len > length header then strncaseeq header data' else Inr False) (\<lambda>found.
              if found then
                rbind (eat_blanks data' len (length header)) (\<lambda>header_len.
                  case val of None \<Rightarrow> Inr (-4, [])
                  | Some cap \<Rightarrow> rbind (copy_value (drop header_len data') (len - header_len) cap)
                      (\<lambda>v. Inr (int (len - header_len), v)))
              else get_header header data' data_len' val)
          else if data_len' = 0 then Inr (-1, []) else Inr (-2, []))"
  by pat_completeness auto
termination
  by (relation "measure (\<lambda>(header, data, data_len, val). length data)") (auto dest: next_header_shorter)

declare get_header.simps [simp del]

section \<open>A request made of lines\<close>

text \<open>A line has no carriage return, line feed or NUL; an empty line ends the header.\<close>

definition line_ok :: "bytes \<Rightarrow> bool" where
  "line_ok l \<longleftrightarrow> 10 \<notin> set l \<and> 13 \<notin> set l \<and> 0 \<notin> set l"

fun enc_lines :: "bytes list \<Rightarrow> bytes" where
  "enc_lines [] = []"
| "enc_lines (l # ls) = l @ [13, 10] @ enc_lines ls"

lemma enc_lines_append [simp]: "enc_lines (xs @ ys) = enc_lines xs @ enc_lines ys"
  by (induction xs) auto

lemma header_skip_line:
  assumes "line_ok l"
  shows "header_skip (l @ [13, 10] @ d) (length l + 2 + n) = Inr ([13, 10] @ d, 2 + n)"
  using assms
proof (induction l)
  case Nil
  then show ?case by (subst header_skip.simps) simp
next
  case (Cons c l)
  have "(c # l @ [13, 10] @ d) ! 1 \<noteq> 10" "c \<noteq> 13"
    using Cons.prems by (cases l; auto simp: line_ok_def)+
  then show ?case
    using Cons by (subst header_skip.simps) (simp add: line_ok_def)
qed

lemma header_span_line:
  assumes "line_ok l" "k \<le> length l"
  shows "header_span (l @ [13, 10] @ d) (length l + 2 + n) k = Inr (length l)"
  using assms(2)
proof (induction "length l - k" arbitrary: k)
  case 0
  then show ?case by (subst header_span.simps) (simp add: nth_append)
next
  case (Suc m)
  then have k: "k < length l" by simp
  then have "(l @ [13, 10] @ d) ! k \<noteq> 13" "(l @ [13, 10] @ d) ! (k + 1) \<noteq> 10"
    using assms(1) by (auto simp: line_ok_def nth_append in_set_conv_nth nth_Cons split: nat.splits)
  then show ?case using Suc k by (subst header_span.simps) simp
qed

lemma next_header_line:
  assumes "line_ok l" "line_ok l'"
  shows "next_header (l @ [13, 10] @ l' @ [13, 10] @ d) (length l + 2 + (length l' + 2 + n))
    = Inr (l' @ [13, 10] @ d, length l' + 2 + n, length l')"
  using header_skip_line [OF assms(1), of "l' @ [13, 10] @ d" "length l' + 2 + n"] header_span_line [OF assms(2), of 0 d n]
  by (simp add: next_header_def Let_def size_sub_def)

lemma next_header_end:
  assumes "line_ok l"
  shows "next_header (l @ [13, 10] @ d) (length l + 2) = Inr (d, 0, 0)"
  using header_skip_line [OF assms, of d 0] by (simp add: next_header_def Let_def size_sub_def header_span.simps)

text \<open>What the walk looks for: the first line with the name, and what follows it and blanks.\<close>

definition has_name :: "bytes \<Rightarrow> bytes \<Rightarrow> bool" where
  "has_name header l \<longleftrightarrow> length header < length l \<and> map tolower (take (length header) l) = map tolower header"

definition field_value :: "bytes \<Rightarrow> bytes list \<Rightarrow> bytes option" where
  "field_value header ls = map_option (\<lambda>l. dropWhile isblank (drop (length header) l)) (find (has_name header) ls)"

lemma eat_blanks_line:
  "k \<le> length l \<Longrightarrow> eat_blanks (l @ d) (length l) k = Inr (k + length (takeWhile isblank (drop k l)))"
proof (induction "length l - k" arbitrary: k)
  case 0
  then show ?case by (subst eat_blanks.simps) simp
next
  case (Suc m)
  then have "k < length l" "drop k l = l ! k # drop (Suc k) l" by (simp_all add: Cons_nth_drop_Suc)
  then show ?case using Suc by (subst eat_blanks.simps) (simp add: nth_append)
qed

lemma copy_value_line:
  assumes "line_ok l" "length l < cap"
  shows "copy_value (l @ d) (length l) cap = Inr (l @ [0])"
proof -
  have "\<forall>b \<in> set l. b \<noteq> 0" using assms(1) by (auto simp: line_ok_def)
  then show ?thesis using assms(2) by (simp add: copy_value_def strncpy_src_in iffD2 [OF takeWhile_eq_all_conv])
qed

lemma line_ok_drop: "line_ok l \<Longrightarrow> line_ok (drop k l)" "line_ok l \<Longrightarrow> line_ok (dropWhile P l)"
  by (auto simp: line_ok_def dest: in_set_dropD set_dropWhileD)

lemma get_header_step:
  assumes "line_ok l" "line_ok l'" "l' \<noteq> []" "length l' < cap"
  shows "get_header header (l @ [13, 10] @ l' @ [13, 10] @ d) (length l + 2 + (length l' + 2 + n)) (Some cap) =
    (if has_name header l'
     then let v = dropWhile isblank (drop (length header) l') in Inr (int (length v), v @ [0])
     else get_header header (l' @ [13, 10] @ d) (length l' + 2 + n) (Some cap))"
proof -
  let ?t = "takeWhile isblank (drop (length header) l')" and ?v = "dropWhile isblank (drop (length header) l')"
  note unf = get_header.simps [of header "l @ _"] next_header_line [OF assms(1,2)]
  show ?thesis
  proof (cases "has_name header l'")
    case True
    then have h: "length header < length l'" "strncaseeq header (l' @ 13 # 10 # d) = Inr True"
      by (simp_all add: strncaseeq_in has_name_def)
    have e: "eat_blanks (l' @ 13 # 10 # d) (length l') (length header) = Inr (length header + length ?t)"
      using eat_blanks_line [of "length header" l' "13 # 10 # d"] h(1) by simp
    have "?t @ ?v = drop (length header) l'" by simp
    then have len: "length l' - length header = length ?t + length ?v" by (metis length_append length_drop)
    then have d: "drop (length header + length ?t) l' = ?v"
      by (metis add.commute drop_drop dropWhile_eq_drop)
    have "copy_value (?v @ 13 # 10 # d) (length ?v) cap = Inr (?v @ [0])"
      using line_ok_drop(2) [OF line_ok_drop(1) [OF assms(2)]] assms(4) len by (intro copy_value_line) auto
    moreover have "length header + length ?t \<le> length l'" "length l' - (length header + length ?t) = length ?v"
      using len h(1) by simp_all
    ultimately show ?thesis
      unfolding unf using assms(3) True h e d by (simp add: Let_def)
  next
    case False
    then have "(if length header < length l' then strncaseeq header (l' @ 13 # 10 # d) else Inr False) = Inr False"
      by (simp add: strncaseeq_in has_name_def)
    then show ?thesis unfolding unf using assms(3) False by simp
  qed
qed

text \<open>
  C20: On a request that consists of lines, \<open>get_header\<close> stores the value of the first line after the
  request line that begins with the name, in any case, without the blanks before it, and returns its
  length; without such a line it returns -2 if the empty line that ends the header is there, and -1 if
  the request is not complete yet.
\<close>

theorem get_header_finds_field:
  assumes "line_ok l" "\<forall>l' \<in> set ls. line_ok l' \<and> l' \<noteq> [] \<and> length l' < cap"
  shows "get_header header (enc_lines (l # ls @ [[]]) @ d) (length (enc_lines (l # ls @ [[]])) + n) (Some cap)
      = Inr (case field_value header ls of Some v \<Rightarrow> (int (length v), v @ [0]) | None \<Rightarrow> (-2, []))
    \<and> get_header header (enc_lines (l # ls) @ d) (length (enc_lines (l # ls))) (Some cap)
      = Inr (case field_value header ls of Some v \<Rightarrow> (int (length v), v @ [0]) | None \<Rightarrow> (-1, []))"
  using assms
proof (induction ls arbitrary: l)
  case Nil
  have "next_header (l @ [13, 10] @ [13, 10] @ d) (length l + 2 + (2 + n)) = Inr ([13, 10] @ d, 2 + n, 0)"
    using next_header_line [OF Nil.prems(1), of "[]" d n] by (simp add: line_ok_def)
  then show ?case
    using next_header_end [OF Nil.prems(1), of d] by (simp add: get_header.simps [of header] field_value_def add.commute add.left_commute)
next
  case (Cons l' ls)
  let ?e = "enc_lines (ls @ [[]])" and ?i = "enc_lines ls"
  have s: "get_header header (l @ [13, 10] @ l' @ [13, 10] @ e) (length l + 2 + (length l' + 2 + k)) (Some cap) =
    (if has_name header l'
     then let v = dropWhile isblank (drop (length header) l') in Inr (int (length v), v @ [0])
     else get_header header (l' @ [13, 10] @ e) (length l' + 2 + k) (Some cap))" for e k
    using Cons.prems by (intro get_header_step) auto
  from s [of "?e @ d" "length ?e + n"] s [of "?i @ d" "length ?i"] Cons.IH [of l'] Cons.prems
  show ?case by (simp add: field_value_def Let_def add.assoc)
qed

text \<open>A request with a body, and the same without the empty line.\<close>

theorem get_header_finds_field_witness:
  "get_header (cstr ''host:'') (enc_lines [cstr ''GET / HTTP/1.1'', cstr ''A: b'', cstr ''Host:  x.y'', []] @ [65])
      (length (enc_lines [cstr ''GET / HTTP/1.1'', cstr ''A: b'', cstr ''Host:  x.y'', []]) + 1) (Some 20)
      = Inr (3, cstr ''x.y'' @ [0])
    \<and> get_header (cstr ''c:'') (enc_lines [cstr ''GET / HTTP/1.1'', cstr ''A: b''] @ [65])
      (length (enc_lines [cstr ''GET / HTTP/1.1'', cstr ''A: b''])) (Some 20) = Inr (- 1, [])"
  using get_header_finds_field [of "cstr ''GET / HTTP/1.1''" "[cstr ''A: b'', cstr ''Host:  x.y'']" 20 "cstr ''host:''" "[65]" 1]
    get_header_finds_field [of "cstr ''GET / HTTP/1.1''" "[cstr ''A: b'']" 20 "cstr ''c:''" "[65]" 1]
  by (simp add: line_ok_def field_value_def has_name_def tolower_def isblank_def cstr_def)

end
