(* ===== verification/Session_Types.thy ===== *)
theory Session_Types
  imports Util
begin

text \<open>
  The session structures of \<open>tun2http.h\<close> and the calls out of the library. A \<open>struct ng_session\<close>
  is one record per arm of its union (the arm's fields behind \<open>ng_session\<close>'s own \<open>socket\<close> and
  \<open>ev.events\<close>), the linked list \<open>ng_session\<close> is a list of \<open>session\<close>. A system call is an
  \<open>event\<close> at the end of the trace; its answer is a function (a field of \<open>sys\<close>) of the calls
  made so far, so a statement for all \<open>sys\<close> covers every behaviour of kernel, peers and clock.
\<close>

section \<open>System calls\<close>

datatype errno = EINTR | EAGAIN | EINPROGRESS | E_OTHER nat

text \<open>
  Where a socket connects to or sends to: raw address bytes and a port in network order, or
  the textual proxy address (read by \<open>inet_pton\<close>) and a port in host order.
\<close>

datatype sockaddr = Addr4 bytes u16 | Addr6 bytes u16 | Named int bytes u16

datatype event =
    ETime | EClock | ERand
  | ETunWrite bytes
  | ESocket int int int
  | EProtect int
  | ENonblock int
  | EConnect int sockaddr
  | ESend int bytes bool \<comment> \<open>the flag is \<open>MSG_MORE\<close>\<close>
  | ESendto int bytes sockaddr
  | ERecv int nat
  | ESndbuf int
  | EOutq int
  | ESetsockopt int string
  | EClose int
  | EEpollAdd int u32
  | EEpollMod int u32
  | ETunRead nat
  | EReadable int
  | EWait int
  | EPipe | EPipeWrite | EPipeRead \<comment> \<open>the pipe that stops the thread\<close>

text \<open>
  What \<open>epoll_wait\<close> reports an event on: \<open>ev.data.ptr\<close> is \<open>&ev_pipe\<close>, \<open>NULL\<close> for the tun device, or
  the session that registered the descriptor.
\<close>

datatype wakeup = WPipe | WTun | WSession int

type_synonym trace = "event list"

text \<open>
  The descriptors a trace closes and those it registers with epoll; a trace that goes on without
  either; and how a session's descriptor goes along: it stays, or it is closed, once, and becomes -1.
\<close>

fun closes :: "trace \<Rightarrow> int list" where
  "closes [] = []"
| "closes (e # es) = (case e of EClose fd \<Rightarrow> fd # closes es | _ \<Rightarrow> closes es)"

fun opens :: "trace \<Rightarrow> int list" where
  "opens [] = []"
| "opens (e # es) = (case e of EEpollAdd fd _ \<Rightarrow> fd # opens es | _ \<Rightarrow> opens es)"

lemma closes_append [simp]: "closes (xs @ ys) = closes xs @ closes ys"
  by (induction xs) (auto split: event.splits)

lemma opens_append [simp]: "opens (xs @ ys) = opens xs @ opens ys"
  by (induction xs) (auto split: event.splits)

definition silent :: "trace \<Rightarrow> trace \<Rightarrow> bool" where
  "silent tr tr' \<longleftrightarrow> (\<exists>evs. tr' = tr @ evs \<and> closes evs = [] \<and> opens evs = [])"

lemma silent_append [simp]: "silent tr (tr @ evs) \<longleftrightarrow> closes evs = [] \<and> opens evs = []"
  by (simp add: silent_def)

lemma silent_refl [simp, intro]: "silent tr tr"
  by (simp add: silent_def)

lemma silent_trans [trans]: "silent a b \<Longrightarrow> silent b c \<Longrightarrow> silent a c"
  by (auto simp: silent_def)

lemma silent_from: "silent (tr @ evs) tr' \<Longrightarrow> closes evs = [] \<Longrightarrow> opens evs = [] \<Longrightarrow> silent tr tr'"
  by (auto simp: silent_def)

lemma silent_upto: "silent tr tr' \<Longrightarrow> closes evs = [] \<Longrightarrow> opens evs = [] \<Longrightarrow> silent tr (tr' @ evs)"
  by (auto simp: silent_def)

text \<open>The same without a packet to the client.\<close>

definition mute :: "trace \<Rightarrow> trace \<Rightarrow> bool" where
  "mute tr tr' \<longleftrightarrow> (\<exists>evs. tr' = tr @ evs \<and> closes evs = [] \<and> opens evs = [] \<and> (\<forall>b. ETunWrite b \<notin> set evs))"

lemma mute_append [simp]:
  "mute tr (tr @ evs) \<longleftrightarrow> closes evs = [] \<and> opens evs = [] \<and> (\<forall>b. ETunWrite b \<notin> set evs)"
  by (simp add: mute_def)

lemma mute_refl [simp, intro]: "mute tr tr"
  by (simp add: mute_def)

definition fd_step :: "int \<Rightarrow> trace \<Rightarrow> int \<Rightarrow> trace \<Rightarrow> bool" where
  "fd_step fd tr fd' tr' \<longleftrightarrow> (\<exists>evs. tr' = tr @ evs \<and> opens evs = [] \<and>
     (fd' = fd \<and> closes evs = [] \<or> 0 \<le> fd \<and> fd' = -1 \<and> closes evs = [fd]))"

lemma fd_step_same [simp, intro]: "fd_step fd tr fd tr"
  by (simp add: fd_step_def)

lemma fd_step_silent: "silent tr tr' \<Longrightarrow> fd_step fd tr fd tr'"
  by (auto simp: fd_step_def silent_def)

lemma fd_step_trans [trans]: "fd_step a tr b tr1 \<Longrightarrow> fd_step b tr1 c tr2 \<Longrightarrow> fd_step a tr c tr2"
  unfolding fd_step_def by fastforce

record sys =
  sys_time :: "trace \<Rightarrow> int"
  sys_ms :: "trace \<Rightarrow> int"
  sys_rand :: "trace \<Rightarrow> int"
  sys_tun_write :: "trace \<Rightarrow> bytes \<Rightarrow> int"
  sys_socket :: "trace \<Rightarrow> int"
  sys_protect :: "trace \<Rightarrow> int \<Rightarrow> bool"
  sys_nonblock :: "trace \<Rightarrow> int \<Rightarrow> bool"
  sys_connect :: "trace \<Rightarrow> int \<Rightarrow> sockaddr \<Rightarrow> int \<times> errno"
  sys_send :: "trace \<Rightarrow> int \<Rightarrow> bytes \<Rightarrow> int \<times> errno"
  sys_sendto :: "trace \<Rightarrow> int \<Rightarrow> bytes \<Rightarrow> sockaddr \<Rightarrow> int \<times> errno"
  sys_recv :: "trace \<Rightarrow> int \<Rightarrow> nat \<Rightarrow> errno + bytes"
  sys_sndbuf :: "trace \<Rightarrow> int \<Rightarrow> int"
  sys_outq :: "trace \<Rightarrow> int \<Rightarrow> int"
  sys_epoll_error :: "trace \<Rightarrow> int \<Rightarrow> bool"
  sys_tun_read :: "trace \<Rightarrow> nat \<Rightarrow> errno + bytes"
  sys_readable :: "trace \<Rightarrow> int \<Rightarrow> bool"
  sys_heap :: "trace \<Rightarrow> nat \<Rightarrow> byte" \<comment> \<open>what a fresh block holds\<close>
  sys_epoll_wait :: "trace \<Rightarrow> int \<Rightarrow> errno + (wakeup \<times> u32) list"

text \<open>
  An environment for examples: the clock moves 1000 s with each call, every call succeeds, a read
  finds the end of the stream, a wait the stop pipe.
\<close>

definition calm_sys :: sys where
  "calm_sys = \<lparr>sys_time = \<lambda>tr. 1000 * int (length tr), sys_ms = \<lambda>tr. int (length tr),
     sys_rand = \<lambda>_. 0, sys_tun_write = \<lambda>_ b. int (length b), sys_socket = \<lambda>tr. 3 + int (length tr),
     sys_protect = \<lambda>_ _. True, sys_nonblock = \<lambda>_ _. True, sys_connect = \<lambda>_ _ _. (-1, EINPROGRESS),
     sys_send = \<lambda>_ fd b. if fd < 0 then (-1, E_OTHER 9) else (int (length b), EAGAIN),
     sys_sendto = \<lambda>_ fd b _. if fd < 0 then (-1, E_OTHER 9) else (int (length b), EAGAIN),
     sys_recv = \<lambda>_ _ _. Inr [], sys_sndbuf = \<lambda>_ _. 65536, sys_outq = \<lambda>_ _. 0,
     sys_epoll_error = \<lambda>_ _. False, sys_tun_read = \<lambda>_ _. Inl EAGAIN,
     sys_readable = \<lambda>_ _. False, sys_heap = \<lambda>_ _. 0, sys_epoll_wait = \<lambda>_ _. Inr [(WPipe, 1)]\<rparr>"

lemma calm_sys_simps [simp]:
  "sys_time calm_sys tr = 1000 * int (length tr)" "sys_ms calm_sys tr = int (length tr)"
  "sys_rand calm_sys tr = 0" "sys_tun_write calm_sys tr b = int (length b)"
  "sys_socket calm_sys tr = 3 + int (length tr)" "sys_protect calm_sys tr fd"
  "sys_nonblock calm_sys tr fd" "sys_connect calm_sys tr fd sa = (-1, EINPROGRESS)"
  "sys_send calm_sys tr fd b = (if fd < 0 then (-1, E_OTHER 9) else (int (length b), EAGAIN))"
  "sys_sendto calm_sys tr fd b sa = (if fd < 0 then (-1, E_OTHER 9) else (int (length b), EAGAIN))"
  "sys_recv calm_sys tr fd n = Inr []" "sys_sndbuf calm_sys tr fd = 65536"
  "sys_outq calm_sys tr fd = 0" "sys_epoll_error calm_sys tr fd = False"
  "sys_heap calm_sys tr i = 0" "sys_tun_read calm_sys tr n = Inl EAGAIN" "\<not> sys_readable calm_sys tr fd"
  "sys_epoll_wait calm_sys tr t = Inr [(WPipe, 1)]"
  by (simp_all add: calm_sys_def)

text \<open>The kernel returns at most what was asked for.\<close>

definition recv_ok :: "sys \<Rightarrow> bool" where
  "recv_ok sys \<longleftrightarrow> (\<forall>tr fd n b. sys_recv sys tr fd n = Inr b \<longrightarrow> length b \<le> n)"

definition PF_INET :: int where "PF_INET = 2"
definition PF_INET6 :: int where "PF_INET6 = 10"

lemma calm_sys_recv_ok [simp]: "recv_ok calm_sys"
  by (simp add: recv_ok_def)

text \<open>\<open>struct arguments\<close>, without the JNI handles.\<close>

record arguments =
  fwd53 :: bool
  proxyIp :: bytes
  proxyPort :: int

definition sample_args :: arguments where
  "sample_args = \<lparr>fwd53 = False, proxyIp = cstr ''10.0.0.9'', proxyPort = 3128\<rparr>"

lemma sample_args_ok: "length (proxyIp sample_args) \<le> 46"
  by (simp add: sample_args_def cstr_def)

definition EPOLLIN :: u32 where "EPOLLIN = 0x001"
definition EPOLLOUT :: u32 where "EPOLLOUT = 0x004"
definition EPOLLERR :: u32 where "EPOLLERR = 0x008"

definition has_event :: "u32 \<Rightarrow> u32 \<Rightarrow> bool" where
  "has_event evs e \<longleftrightarrow> evs AND e \<noteq> 0"

section \<open>Sessions\<close>

record ng_session =
  socket :: int
  events :: u32

text \<open>\<open>struct segment\<close>, without the link.\<close>

record segment =
  sg_seq :: u32
  sg_len :: u16
  sg_sent :: u16
  sg_psh :: bool
  sg_data :: bytes

datatype connect_state = TCP_CONNECT_NOT_SENT | TCP_CONNECT_SENT | TCP_CONNECT_ESTABLISHED

text \<open>
  An address union holds the bytes written to it: 4 for IPv4, 16 for IPv6; \<open>ip4\<close> reads the
  first four.
\<close>

definition ip4 :: "bytes \<Rightarrow> bytes" where
  "ip4 a = take 4 a"

record tcp_session = ng_session +
  t_uid :: int
  t_time :: int
  t_version :: int
  t_mss :: u16
  t_recv_scale :: byte
  t_send_scale :: byte
  t_recv_window :: u32
  t_send_window :: u32
  t_remote_seq :: u32
  t_local_seq :: u32
  t_remote_start :: u32
  t_local_start :: u32
  t_acked :: u32
  t_last_keep_alive :: int
  t_sent :: u64
  t_received :: u64
  t_saddr :: bytes
  t_source :: u16
  t_daddr :: bytes
  t_dest :: u16
  t_state :: tcp_state
  t_forward :: "segment list"
  t_hostname :: bytes
  t_connect_sent :: connect_state

text \<open>\<open>memset(&rst, 0, sizeof(struct tcp_session))\<close>.\<close>

definition zero_tcp_session :: tcp_session where
  "zero_tcp_session = \<lparr>socket = 0, events = 0, t_uid = 0, t_time = 0, t_version = 0, t_mss = 0,
     t_recv_scale = 0, t_send_scale = 0, t_recv_window = 0, t_send_window = 0, t_remote_seq = 0,
     t_local_seq = 0, t_remote_start = 0, t_local_start = 0, t_acked = 0, t_last_keep_alive = 0,
     t_sent = 0, t_received = 0, t_saddr = replicate 16 0, t_source = 0, t_daddr = replicate 16 0,
     t_dest = 0, t_state = TCP_ZERO, t_forward = [], t_hostname = [],
     t_connect_sent = TCP_CONNECT_NOT_SENT\<rparr>"

datatype udp_state = UDP_ACTIVE | UDP_FINISHING | UDP_CLOSED | UDP_BLOCKED

record udp_session = ng_session +
  u_time :: int
  u_uid :: int
  u_version :: int
  u_mss :: u16
  u_sent :: u64
  u_received :: u64
  u_saddr :: bytes
  u_source :: u16
  u_daddr :: bytes
  u_dest :: u16
  u_state :: udp_state

definition sample_udp :: udp_session where
  "sample_udp = \<lparr>socket = 3, events = 0x009, u_time = 0, u_uid = 10001, u_version = 4, u_mss = 65507,
     u_sent = 0, u_received = 0, u_saddr = [10, 1, 10, 1], u_source = 0x1234, u_daddr = [8, 8, 8, 8],
     u_dest = 0x5000, u_state = UDP_ACTIVE\<rparr>"

record icmp_session = ng_session +
  i_time :: int
  i_uid :: int
  i_version :: int
  i_saddr :: bytes
  i_daddr :: bytes
  i_id :: u16
  i_stop :: bool

datatype session = is_ICMP: ICMP icmp_session | is_UDP: UDP udp_session | is_TCP: TCP tcp_session

section \<open>Timeouts\<close>

text \<open>
  All three protocols scale a base timeout by the share of free sessions:
  \<open>scale = 100 - sessions * 100 / maxsessions; timeout = timeout * scale / 100\<close>, C division
  (towards zero).
\<close>

definition scale_timeout :: "int \<Rightarrow> int \<Rightarrow> int \<Rightarrow> int" where
  "scale_timeout timeout sessions maxsessions =
     (let scale = 100 - (sessions * 100) sdiv maxsessions in (timeout * scale) sdiv 100)"

definition get_tcp_timeout :: "tcp_session \<Rightarrow> int \<Rightarrow> int \<Rightarrow> int" where
  "get_tcp_timeout t sessions maxsessions =
     (let timeout = (if t_state t = TCP_LISTEN \<or> t_state t = TCP_SYN_RECV then 30
                     else if t_state t = TCP_ESTABLISHED then 3600 else 30)
      in scale_timeout timeout sessions maxsessions)"

definition get_udp_timeout :: "udp_session \<Rightarrow> int \<Rightarrow> int \<Rightarrow> int" where
  "get_udp_timeout u sessions maxsessions =
     (let timeout = (if ntohs (u_dest u) = 53 then 15 else 300)
      in scale_timeout timeout sessions maxsessions)"

definition get_icmp_timeout :: "icmp_session \<Rightarrow> int \<Rightarrow> int \<Rightarrow> int" where
  "get_icmp_timeout u sessions maxsessions = scale_timeout 15 sessions maxsessions"

lemma sdiv_nonneg: "0 \<le> a \<Longrightarrow> 0 < b \<Longrightarrow> (a :: int) sdiv b = a div b"
  by (cases "a = 0") (simp_all add: signed_divide_int_def)

text \<open>The contract of a timeout: within the base, and shorter the more sessions there are.\<close>

locale session_timeout =
  fixes timeout :: "'s \<Rightarrow> int \<Rightarrow> int \<Rightarrow> int"
    and base :: "'s \<Rightarrow> int"
  assumes base_pos: "0 < base s"
    and empty: "0 < m \<Longrightarrow> timeout s 0 m = base s"
    and full: "0 < m \<Longrightarrow> timeout s m m = 0"
    and antimono: "0 \<le> a \<Longrightarrow> a \<le> b \<Longrightarrow> b \<le> m \<Longrightarrow> 0 < m \<Longrightarrow> timeout s b m \<le> timeout s a m"
begin

lemma bounds: "0 \<le> n \<Longrightarrow> n \<le> m \<Longrightarrow> 0 < m \<Longrightarrow> 0 \<le> timeout s n m \<and> timeout s n m \<le> base s"
  using antimono [of 0 n m s] antimono [of n m m s] empty [of m s] full [of m s] by simp

text \<open>A session that is not idle for longer than its base timeout is not timed out by load 0.\<close>

lemma idle_expires: "0 < m \<Longrightarrow> t + base s < now \<Longrightarrow> 0 \<le> n \<Longrightarrow> n \<le> m \<Longrightarrow> t + timeout s n m < now"
  using bounds [of n m s] by simp

end

lemma scale_timeout_nonneg:
  "0 \<le> n \<Longrightarrow> n \<le> m \<Longrightarrow> 0 < m \<Longrightarrow> 0 \<le> b \<Longrightarrow>
   scale_timeout b n m = (b * (100 - (n * 100) div m)) div 100"
proof -
  assume a: "0 \<le> n" "n \<le> m" "0 < m" "0 \<le> b"
  then have "(n * 100) div m \<le> 100"
    by (metis mult_right_mono zdiv_mono1 nonzero_mult_div_cancel_left order_less_irrefl
        zero_le_numeral)
  with a show ?thesis by (simp add: scale_timeout_def Let_def sdiv_nonneg)
qed

lemma scale_timeout_antimono:
  assumes "0 \<le> a" "a \<le> b" "b \<le> m" "0 < m" "0 \<le> t"
  shows "scale_timeout t b m \<le> scale_timeout t a m"
proof -
  have "(a * 100) div m \<le> (b * 100) div m"
    using assms by (simp add: zdiv_mono1)
  then show ?thesis
    using assms by (simp add: scale_timeout_nonneg zdiv_mono1 mult_left_mono)
qed

lemma scale_timeout_ends: "0 < m \<Longrightarrow> 0 \<le> t \<Longrightarrow> scale_timeout t 0 m = t \<and> scale_timeout t m m = 0"
  by (simp add: scale_timeout_nonneg)

interpretation tcp_to: session_timeout get_tcp_timeout
    "\<lambda>t. if t_state t = TCP_ESTABLISHED then 3600 else 30"
  by unfold_locales
    (auto simp: get_tcp_timeout_def Let_def scale_timeout_ends intro: scale_timeout_antimono)

interpretation udp_to: session_timeout get_udp_timeout
    "\<lambda>u. if ntohs (u_dest u) = 53 then 15 else 300"
  by unfold_locales
    (auto simp: get_udp_timeout_def Let_def scale_timeout_ends intro: scale_timeout_antimono)

interpretation icmp_to: session_timeout get_icmp_timeout "\<lambda>_. 15"
  by unfold_locales
    (auto simp: get_icmp_timeout_def scale_timeout_ends intro: scale_timeout_antimono)

end
