(* ===== verification/Session_Table.thy ===== *)
theory Session_Table
  imports Session_Types "HOL-Library.Sublist"
begin

text \<open>
  The list \<open>ng_session\<close> as a table. Each protocol searches it in its own loop
  (\<open>handle_tcp\<close>, \<open>handle_udp\<close>, \<open>has_udp_session\<close>, \<open>handle_icmp\<close>): the first session that matches
  the packet. The locale states what the three searches have in common and what follows from it:
  a flow has at most one session.
\<close>

section \<open>The search\<close>

fun find_idx :: "('a \<Rightarrow> bool) \<Rightarrow> 'a list \<Rightarrow> nat option" where
  "find_idx P [] = None"
| "find_idx P (x # xs) = (if P x then Some 0 else map_option Suc (find_idx P xs))"

lemma find_idx_None: "find_idx P xs = None \<longleftrightarrow> (\<forall>x \<in> set xs. \<not> P x)"
  by (induction xs) auto

lemma find_idx_Some:
  "find_idx P xs = Some i \<longleftrightarrow> i < length xs \<and> P (xs ! i) \<and> (\<forall>j < i. \<not> P (xs ! j))"
proof (induction xs arbitrary: i)
  case (Cons x xs)
  then show ?case by (cases i) (auto simp: less_Suc_eq_0_disj)
qed simp

lemma find_idx_cong: "(\<And>x. x \<in> set xs \<Longrightarrow> P x = Q x) \<Longrightarrow> find_idx P xs = find_idx Q xs"
  by (induction xs) auto

section \<open>What one packet may change\<close>

text \<open>A handler of the protocol \<open>K\<close> adds one of its sessions or updates one in place.\<close>

definition local_change :: "(session \<Rightarrow> bool) \<Rightarrow> session list \<Rightarrow> session list \<Rightarrow> bool" where
  "local_change K ss ss' \<longleftrightarrow> ss' = ss \<or> (\<exists>s. K s \<and> ss' = s # ss)
     \<or> (\<exists>i < length ss. \<exists>s. K (ss ! i) \<and> K s \<and> ss' = ss[i := s])"

lemma local_change_refl [simp]: "local_change K ss ss"
  by (simp add: local_change_def)

lemma local_change_add: "K s \<Longrightarrow> local_change K ss (s # ss)"
  by (auto simp: local_change_def)

lemma local_change_update: "i < length ss \<Longrightarrow> K (ss ! i) \<Longrightarrow> K s \<Longrightarrow> local_change K ss (ss[i := s])"
  by (auto simp: local_change_def)

lemma update_other:
  assumes "i < length ss" "\<not> K s" "K (ss ! i)" "K x"
  shows "s \<in> set (ss[i := x]) \<longleftrightarrow> s \<in> set ss"
proof
  assume "s \<in> set (ss[i := x])"
  then show "s \<in> set ss" using assms(2,4) set_update_subset_insert [of ss i x] by auto
next
  assume "s \<in> set ss"
  then obtain j where "j < length ss" "ss ! j = s" by (auto simp: in_set_conv_nth)
  then show "s \<in> set (ss[i := x])" using assms(2,3) by (metis length_list_update nth_list_update_neq nth_mem)
qed

lemma local_change_other: "local_change K ss ss' \<Longrightarrow> \<not> K s \<Longrightarrow> s \<in> set ss' \<longleftrightarrow> s \<in> set ss"
  by (auto simp: local_change_def update_other)

section \<open>Tables keyed by a flow\<close>

text \<open>
  \<open>key\<close> is the flow of a session of the protocol, \<open>None\<close> for a session of another protocol;
  \<open>flow\<close> the flow of a packet; \<open>matches\<close> the condition of the code's loop.
\<close>

locale session_table =
  fixes matches :: "'p \<Rightarrow> session \<Rightarrow> bool"
    and flow :: "'p \<Rightarrow> 'k"
    and key :: "session \<Rightarrow> 'k option"
  assumes matches_key: "matches p s \<longleftrightarrow> key s = Some (flow p)"
begin

definition keys :: "session list \<Rightarrow> 'k list" where
  "keys ss = concat (map (\<lambda>s. case key s of None \<Rightarrow> [] | Some k \<Rightarrow> [k]) ss)"

lemma keys_simps [simp]:
  "keys [] = []" "keys (s # ss) = (case key s of None \<Rightarrow> keys ss | Some k \<Rightarrow> k # keys ss)"
  by (simp_all add: keys_def split: option.split)

lemma set_keys: "set (keys ss) = {k. \<exists>s \<in> set ss. key s = Some k}"
  by (induction ss) (auto split: option.splits)

text \<open>A miss is a flow without a session, so registering one keeps the keys distinct.\<close>

lemma miss: "find_idx (matches p) ss = None \<longleftrightarrow> flow p \<notin> set (keys ss)"
  by (auto simp: find_idx_None matches_key set_keys)

lemma register_distinct:
  "distinct (keys ss) \<Longrightarrow> find_idx (matches p) ss = None \<Longrightarrow> key s = Some (flow p) \<Longrightarrow>
   distinct (keys (s # ss))"
  by (simp add: miss)

lemma register_other: "distinct (keys ss) \<Longrightarrow> key s = None \<Longrightarrow> distinct (keys (s # ss))"
  by simp

text \<open>What was registered is what the next packet of the flow finds.\<close>

lemma register_found: "key s = Some (flow p) \<Longrightarrow> find_idx (matches p) (s # ss) = Some 0"
  by (simp add: matches_key)

lemma hit_unique:
  "distinct (keys ss) \<Longrightarrow> find_idx (matches p) ss = Some i \<Longrightarrow> j < length ss \<Longrightarrow>
   matches p (ss ! j) \<Longrightarrow> j = i"
proof (induction ss arbitrary: i j)
  case (Cons s ss)
  show ?case
  proof (cases "matches p s")
    case True
    then have "flow p \<notin> set (keys ss)" using Cons.prems(1) by (simp add: matches_key)
    then have "\<not> matches p (ss ! k)" if "k < length ss" for k
      using that by (auto simp: set_keys matches_key)
    then show ?thesis using True Cons.prems by (cases j) auto
  next
    case False
    then obtain i' where i: "find_idx (matches p) ss = Some i'" "i = Suc i'"
      using Cons.prems(2) by auto
    then show ?thesis using False Cons by (cases j) (auto split: option.splits)
  qed
qed simp

text \<open>An update that keeps the session's key keeps the table's keys.\<close>

lemma update_keys: "key s = key (ss ! i) \<Longrightarrow> keys (ss[i := s]) = keys ss"
proof (induction ss arbitrary: i)
  case (Cons x xs)
  then show ?case by (cases i) (auto split: option.splits)
qed simp

text \<open>An update that takes a session out of the table removes at most its key.\<close>

lemma update_drop: "key s = None \<Longrightarrow> distinct (keys ss) \<Longrightarrow> distinct (keys (ss[i := s]))"
proof (induction ss arbitrary: i)
  case (Cons x xs)
  have "set (keys (xs[j := s])) \<subseteq> set (keys xs)" for j
    using set_update_subset_insert [of xs j s] Cons.prems(1) by (auto simp: set_keys)
  then show ?case using Cons by (cases i) (auto split: option.splits)
qed simp

lemma other_keys: "(\<And>s. K s \<Longrightarrow> key s = None) \<Longrightarrow> local_change K ss ss' \<Longrightarrow> keys ss' = keys ss"
  by (auto simp: local_change_def intro: update_keys)

lemma filter_distinct: "distinct (keys ss) \<Longrightarrow> distinct (keys (filter P ss))"
proof (induction ss)
  case (Cons x xs)
  have "set (keys (filter P xs)) \<subseteq> set (keys xs)" by (auto simp: set_keys)
  then show ?case using Cons by (auto split: option.splits)
qed simp

text \<open>Sessions that are dropped, or changed without a change of their flow, keep the keys distinct.\<close>

lemma emb_distinct:
  assumes "list_emb R ss' ss" "\<And>s' s. R s' s \<Longrightarrow> key s' = key s \<or> key s' = None"
  shows "set (keys ss') \<subseteq> set (keys ss) \<and> (distinct (keys ss) \<longrightarrow> distinct (keys ss'))"
  using assms(1)
proof (induction rule: list_emb.induct)
  case (list_emb_Cons2 s' s ss' ss)
  then show ?case using assms(2) [OF list_emb_Cons2.hyps(1)] by (auto split: option.splits)
qed (auto split: option.splits)

end

end
