(* ===== verification/Ip_Output.thy ===== *)
theory Ip_Output
  imports Session_Types Headers Checksum
begin

text \<open>
  What the three packet writers (\<open>write_tcp\<close>, \<open>write_udp\<close>, \<open>write_icmp\<close>) have in common: the IP
  header they put before the payload, field by field, its checksum, and the pseudo header a
  receiver sums.
\<close>

section \<open>The IP header\<close>

text \<open>\<open>sizeof(struct iphdr) = sizeof(struct tcphdr) = 20\<close>, \<open>sizeof(struct ip6_hdr) = 40\<close>.\<close>

definition get_mtu :: u16 where "get_mtu = of_nat MTU"

definition get_default_mss :: "int \<Rightarrow> u16" where
  "get_default_mss version = (if version = 4 then get_mtu - 20 - 20 else get_mtu - 40 - 20)"

definition IPDEFTTL :: byte where "IPDEFTTL = 64"

definition build_ip4 :: "bytes \<Rightarrow> bytes \<Rightarrow> byte \<Rightarrow> nat \<Rightarrow> iphdr" where
  "build_ip4 saddr daddr proto len =
     (let h = zero_iphdr\<lparr>ip_version := 4, ip_ihl := 20 div 4, ip_tot_len := htons (of_nat len),
                ip_ttl := IPDEFTTL, ip_protocol := proto,
                ip_saddr := ip4 daddr, ip_daddr := ip4 saddr\<rparr>
      in h\<lparr>ip_check := NOT (calc_checksum 0 (store_iphdr h))\<rparr>)"

definition build_ip6 :: "bytes \<Rightarrow> bytes \<Rightarrow> byte \<Rightarrow> nat \<Rightarrow> ip6_hdr" where
  "build_ip6 saddr daddr proto plen =
     set_vfc 0x60 (zero_ip6_hdr\<lparr>ip6_un1_plen := htons (of_nat plen), ip6_un1_nxt := proto,
       ip6_un1_hlim := IPDEFTTL, ip6_src := daddr, ip6_dst := saddr\<rparr>)"

section \<open>What a receiver sees\<close>

text \<open>The place the header checksum is filled in.\<close>

definition ip_pre :: "iphdr \<Rightarrow> bytes" where
  "ip_pre h = take 10 (store_iphdr h)"

lemma ip_pre_length [simp]: "length (ip_pre h) = 10"
  by (simp add: ip_pre_def store_iphdr_def)

lemma store_iphdr_check:
  "store_iphdr (h\<lparr>ip_check := c\<rparr>) = ip_pre h @ st16 c @ ip_saddr h @ ip_daddr h"
  by (simp add: ip_pre_def store_iphdr_def st16_def)

lemma store_iphdr_check_0:
  "ip_check h = 0 \<Longrightarrow> store_iphdr h = ip_pre h @ [0, 0] @ ip_saddr h @ ip_daddr h"
  using store_iphdr_check [where h = h and c = 0] by (cases h) (simp add: st16_def)

text \<open>An address union holds the session's address.\<close>

definition addr_ok :: "int \<Rightarrow> bytes \<Rightarrow> bool" where
  "addr_ok version a \<longleftrightarrow> (if version = 4 then 4 \<le> length a else length a = 16)"

lemma length_ip4 [simp]: "4 \<le> length a \<Longrightarrow> length (ip4 a) = 4"
  by (simp add: ip4_def)

lemma wf_build_ip4:
  "addr_ok 4 s \<Longrightarrow> addr_ok 4 d \<Longrightarrow> wf_iphdr (build_ip4 s d proto len)"
  by (simp add: wf_iphdr_def build_ip4_def Let_def addr_ok_def)

lemma wf_build_ip6:
  "length s = 16 \<Longrightarrow> length d = 16 \<Longrightarrow> wf_ip6_hdr (build_ip6 s d proto len)"
  by (simp add: wf_ip6_hdr_def build_ip6_def set_vfc_def zero_ip6_hdr_def)

lemma build_ip4_verifies:
  assumes "addr_ok 4 s" "addr_ok 4 d"
  shows "calc_checksum 0 (store_iphdr (build_ip4 s d proto len)) = 0xFFFF"
proof -
  define h where "h = zero_iphdr\<lparr>ip_version := 4, ip_ihl := 20 div 4, ip_tot_len := htons (of_nat len),
      ip_ttl := IPDEFTTL, ip_protocol := proto, ip_saddr := ip4 d, ip_daddr := ip4 s\<rparr>"
  have h: "ip_check h = 0" by (simp add: h_def zero_iphdr_def)
  have b: "build_ip4 s d proto len = h\<lparr>ip_check := NOT (calc_checksum 0 (store_iphdr h))\<rparr>"
    by (simp add: build_ip4_def h_def Let_def)
  have "store_iphdr (build_ip4 s d proto len)
      = ip_pre h @ st16 (NOT (calc_checksum 0 (ip_pre h @ [0, 0] @ ip_saddr h @ ip_daddr h)))
        @ ip_saddr h @ ip_daddr h"
    unfolding b store_iphdr_check by (simp add: store_iphdr_check_0 [OF h])
  moreover have "length (ip_saddr h) = 4" "length (ip_daddr h) = 4"
    using assms by (simp_all add: h_def addr_ok_def)
  ultimately show ?thesis
    using calc.header_verifies [of "ip_pre h" "ip_saddr h @ ip_daddr h"] by simp
qed

text \<open>The length of the IP header.\<close>

definition ip_hdr_len :: "int \<Rightarrow> nat" where
  "ip_hdr_len version = (if version = 4 then 20 else 40)"

text \<open>The pseudo headers a receiver sums, from RFC 793 and RFC 8200.\<close>

definition pseudo4 :: "bytes \<Rightarrow> bytes \<Rightarrow> byte \<Rightarrow> nat \<Rightarrow> bytes" where
  "pseudo4 src dst proto len = src @ dst @ [0, proto] @ be16 len"

definition pseudo6 :: "bytes \<Rightarrow> bytes \<Rightarrow> byte \<Rightarrow> nat \<Rightarrow> bytes" where
  "pseudo6 src dst proto len = src @ dst @ [0, 0] @ be16 len @ [0, 0, 0, proto]"

lemma st16_htons: "n < 65536 \<Longrightarrow> st16 (htons (of_nat n)) = be16 n"
proof -
  assume n: "n < 65536"
  have "unat (ld16 (of_nat (n mod 256)) (of_nat (n div 256))) = unat (of_nat n :: u16)"
    using n by (simp add: unat_ld16 unsigned_of_nat take_bit_nat_eq_self)
  then have "ld16 (of_nat (n mod 256)) (of_nat (n div 256)) = of_nat n"
    by (rule unsigned_word_eqI)
  then have "htons (of_nat n) = ld16 (of_nat (n div 256)) (of_nat (n mod 256))"
    using ntohs_ld16 [of "of_nat (n mod 256)" "of_nat (n div 256)"] by (simp add: htons_def)
  then show ?thesis by (simp add: st16_ld16 be16_def)
qed


lemma wsum_pseudo6_swap:
  assumes "length a = 16" "length b = 16" "n < 65536"
  shows "wsum (store_ip6_pseudo a b (ucast (htons (of_nat n))) p) = wsum (pseudo6 b a p n)"
proof -
  have "st32 (ucast w) = st16 w @ [0, 0]" for w :: u16
    by (auto simp: st32_def st16_def bit_simps intro!: bit_word_eqI)
  then show ?thesis
    using assms by (simp add: store_ip6_pseudo_def pseudo6_def wsum_append st16_htons)
qed

lemma calc_checksum_wsum:
  "wsum xs = wsum ys \<Longrightarrow> length xs = length ys \<Longrightarrow> length xs \<le> 131068 \<Longrightarrow>
   calc_checksum s xs = calc_checksum s ys"
  by (metis unat_calc_checksum unsigned_word_eqI)

text \<open>
  A receiver's check of a packet: the header of version 4 sums to 0xFFFF, and so does the payload
  behind the pseudo header of the addresses the packet carries.
\<close>

definition receiver_accepts :: "int \<Rightarrow> byte \<Rightarrow> bytes \<Rightarrow> bool" where
  "receiver_accepts version proto p =
     (if version = 4
      then calc_checksum 0 (take 20 p) = 0xFFFF \<and>
        calc_checksum 0 (pseudo4 (take 4 (drop 12 p)) (take 4 (drop 16 p)) proto (length p - 20) @ drop 20 p) = 0xFFFF
      else calc_checksum 0 (pseudo6 (take 16 (drop 8 p)) (take 16 (drop 24 p)) proto (length p - 40) @ drop 40 p) = 0xFFFF)"

text \<open>
  \<open>ip_part\<close> is the IP header and the sum over the pseudo header, as the writers of TCP and UDP
  build it; what they put behind it is accepted if it sums to 0xFFFF behind the code's own pseudo
  header.
\<close>

definition ip_part :: "int \<Rightarrow> bytes \<Rightarrow> bytes \<Rightarrow> byte \<Rightarrow> nat \<Rightarrow> bytes \<times> u16" where
  "ip_part version saddr daddr proto seglen =
     (if version = 4 then
        let ip = build_ip4 saddr daddr proto (20 + seglen)
        in (store_iphdr ip,
            calc_checksum 0 (store_ippseudo (ip_saddr ip) (ip_daddr ip) (ip_protocol ip) (htons (of_nat seglen))))
      else
        let ip6 = build_ip6 saddr daddr proto seglen
        in (store_ip6_hdr ip6,
            calc_checksum 0 (store_ip6_pseudo (ip6_dst ip6) (ip6_src ip6) (ucast (ip6_un1_plen ip6)) (ip6_un1_nxt ip6))))"

lemma ip_part4:
  "ip_part 4 s d proto n =
     (let ip = build_ip4 s d proto (20 + n)
      in (store_iphdr ip, calc_checksum 0 (store_ippseudo (ip_saddr ip) (ip_daddr ip) proto (htons (of_nat n)))))"
  by (simp add: ip_part_def Let_def build_ip4_def)

lemma ip_part6:
  "v \<noteq> 4 \<Longrightarrow> ip_part v s d proto n =
     (let ip = build_ip6 s d proto n
      in (store_ip6_hdr ip,
          calc_checksum 0 (store_ip6_pseudo (ip6_dst ip) (ip6_src ip) (ucast (htons (of_nat n))) proto)))"
  by (simp add: ip_part_def Let_def build_ip6_def set_vfc_def)

lemma length_ip_part [len_simps]:
  "addr_ok v s \<Longrightarrow> addr_ok v d \<Longrightarrow> length (fst (ip_part v s d proto n)) = ip_hdr_len v"
  by (auto simp: ip_part_def Let_def ip_hdr_len_def wf_build_ip6
      wf_build_ip4 [unfolded wf_iphdr_def] addr_ok_def)

lemma ip_part_accepts:
  assumes "addr_ok v s" "addr_ok v d" "length seg < 65500"
    and "\<And>ph. even (length ph) \<Longrightarrow> length ph \<le> 40 \<Longrightarrow>
      snd (ip_part v s d proto (length seg)) = calc_checksum 0 ph \<Longrightarrow> calc_checksum 0 (ph @ seg) = 0xFFFF"
  shows "receiver_accepts v proto (fst (ip_part v s d proto (length seg)) @ seg)"
proof (cases "v = 4")
  case True
  define ip where "ip = build_ip4 s d proto (20 + length seg)"
  have wf: "wf_iphdr ip" using assms(1,2) True by (simp add: ip_def wf_build_ip4)
  then have len: "length (ip_saddr ip) = 4" "length (ip_daddr ip) = 4" by (simp_all add: wf_iphdr_def)
  let ?ph = "pseudo4 (ip_saddr ip) (ip_daddr ip) proto (length seg)"
  let ?p = "store_iphdr ip @ seg"
  have part: "ip_part 4 s d proto (length seg) = (store_iphdr ip, calc_checksum 0 ?ph)"
    using assms(3) by (simp add: ip_part4 Let_def ip_def store_ippseudo_def pseudo4_def st16_htons)
  have "take 4 (drop 12 ?p) = ip_saddr ip" "take 4 (drop 16 ?p) = ip_daddr ip" "length ?p - 20 = length seg"
    using len by simp_all (simp_all add: store_iphdr_def st16_def)
  moreover have "calc_checksum 0 (?ph @ seg) = 0xFFFF"
    using len part True by (intro assms(4)) (simp_all add: pseudo4_def)
  moreover have "calc_checksum 0 (store_iphdr ip) = 0xFFFF"
    using assms(1,2) True by (simp add: ip_def build_ip4_verifies)
  ultimately show ?thesis
    using True len by (simp add: receiver_accepts_def part)
next
  case False
  define ip where "ip = build_ip6 s d proto (length seg)"
  have wf: "wf_ip6_hdr ip"
    using assms(1,2) False by (simp add: ip_def addr_ok_def wf_build_ip6)
  then have len: "length (ip6_src ip) = 16" "length (ip6_dst ip) = 16" by (simp_all add: wf_ip6_hdr_def)
  define ph where "ph = store_ip6_pseudo (ip6_dst ip) (ip6_src ip) (ucast (htons (of_nat (length seg)))) proto"
  let ?p = "store_ip6_hdr ip @ seg"
  have part: "ip_part v s d proto (length seg) = (store_ip6_hdr ip, calc_checksum 0 ph)"
    using False by (simp add: ip_part6 Let_def ip_def ph_def)
  have addr: "take 16 (drop 8 ?p) = ip6_src ip" "take 16 (drop 24 ?p) = ip6_dst ip" "length ?p - 40 = length seg"
    using wf by simp_all (simp_all add: store_ip6_hdr_def st16_def wf_ip6_hdr_def)
  have lph: "length ph = 40" using len by (simp add: ph_def store_ip6_pseudo_def)
  have "calc_checksum 0 (ph @ seg) = 0xFFFF" using part lph by (intro assms(4)) simp_all
  moreover have "calc_checksum 0 (ph @ seg) = calc_checksum 0 (pseudo6 (ip6_src ip) (ip6_dst ip) proto (length seg) @ seg)"
    using assms(3) len lph wsum_pseudo6_swap [OF len(2,1), of "length seg" proto]
    by (intro calc_checksum_wsum) (simp_all add: wsum_append pseudo6_def flip: ph_def)
  moreover have "drop 40 ?p = seg" using wf by simp
  ultimately show ?thesis
    using False by (simp only: receiver_accepts_def part fst_conv addr if_False)
qed

text \<open>Reading the header back: the session's two ends exchanged, and the length of the packet.\<close>

definition ip_ends :: "int \<Rightarrow> bytes \<Rightarrow> (bytes \<times> bytes \<times> byte \<times> nat) result" where
  "ip_ends version p =
     (if version = 4
      then rbind (load_iphdr p) (\<lambda>h. Inr (ip_saddr h, ip_daddr h, ip_protocol h, unat (ntohs (ip_tot_len h))))
      else rbind (load_ip6_hdr p) (\<lambda>h. Inr (ip6_src h, ip6_dst h, ip6_un1_nxt h, 40 + unat (ntohs (ip6_un1_plen h)))))"

lemma ip_part_reads_back:
  assumes "addr_ok v s" "addr_ok v d" "length seg < 65500"
  shows "ip_ends v (fst (ip_part v s d proto (length seg)) @ seg)
    = Inr (if v = 4 then ip4 d else d, if v = 4 then ip4 s else s, proto, ip_hdr_len v + length seg)"
proof (cases "v = 4")
  case True
  let ?ip = "build_ip4 s d proto (20 + length seg)"
  have "load_iphdr (store_iphdr ?ip @ seg) = Inr ?ip"
    using assms(1,2) True by (simp add: load_store_iphdr wf_build_ip4)
  moreover have "unat (ntohs (ip_tot_len ?ip)) = 20 + length seg"
    using assms(3) unfolding build_ip4_def
    by (simp add: Let_def unsigned_of_nat take_bit_nat_eq_self del: of_nat_add)
  ultimately show ?thesis
    using True by (simp add: ip_ends_def ip_part4 Let_def ip_hdr_len_def) (simp add: build_ip4_def Let_def)
next
  case False
  let ?ip = "build_ip6 s d proto (length seg)"
  have "load_ip6_hdr (store_ip6_hdr ?ip @ seg) = Inr ?ip"
    using assms(1,2) False by (simp add: load_store_ip6_hdr wf_build_ip6 addr_ok_def)
  moreover have "unat (ntohs (ip6_un1_plen ?ip)) = length seg"
    using assms(3) by (simp add: build_ip6_def set_vfc_def unsigned_of_nat take_bit_nat_eq_self)
  ultimately show ?thesis
    using False by (simp add: ip_ends_def ip_part6 Let_def ip_hdr_len_def)
      (simp add: build_ip6_def set_vfc_def)
qed

text \<open>
  A packet as a receiver with no idea of the session sees it: the version in the first byte, the length
  of the header and the header checksum right, and a TCP or UDP payload accepted. (Packets of more than
  65000 bytes are left out: their length may not fit the header.)
\<close>

definition packet_ok :: "bytes \<Rightarrow> bool" where
  "packet_ok p \<longleftrightarrow> length p \<le> 65000 \<longrightarrow>
     (\<exists>v \<in> {4, 6}. int (unat (drop_bit 4 (p ! 0))) = v \<and> (v = 4 \<longrightarrow> calc_checksum 0 (take 20 p) = 0xFFFF) \<and>
       (\<exists>src dst proto. ip_ends v p = Inr (src, dst, proto, length p) \<and>
          (proto = 6 \<or> proto = 17 \<longrightarrow> receiver_accepts v proto p)))"

lemma store_build_ip4_version: "drop_bit 4 ((store_iphdr (build_ip4 s d proto n) @ q) ! 0) = (4 :: byte)"
  by (simp add: store_iphdr_def build_ip4_def Let_def zero_iphdr_def)

lemma store_build_ip6_version: "drop_bit 4 ((store_ip6_hdr (build_ip6 s d proto n) @ q) ! 0) = (6 :: byte)"
  by (simp add: store_ip6_hdr_def build_ip6_def set_vfc_def zero_ip6_hdr_def nth_append)

lemma version_6: "v \<noteq> 4 \<Longrightarrow> ip_ends v p = ip_ends 6 p \<and> receiver_accepts v proto p = receiver_accepts 6 proto p"
  by (simp add: ip_ends_def receiver_accepts_def)

lemma ip_part_packet_ok:
  assumes "addr_ok v s" "addr_ok v d"
    and "length seg \<le> 65000 \<Longrightarrow> proto = 6 \<or> proto = 17 \<Longrightarrow>
      receiver_accepts v proto (fst (ip_part v s d proto (length seg)) @ seg)"
  shows "packet_ok (fst (ip_part v s d proto (length seg)) @ seg)"
  unfolding packet_ok_def
proof
  let ?p = "fst (ip_part v s d proto (length seg)) @ seg"
  assume l: "length ?p \<le> 65000"
  then have seg: "length seg \<le> 65000" by simp
  have ends: "ip_ends v ?p = Inr (if v = 4 then ip4 d else d, if v = 4 then ip4 s else s, proto, length ?p)"
    using ip_part_reads_back [OF assms(1,2), of seg proto] seg length_ip_part [OF assms(1,2)] by simp
  show "\<exists>v \<in> {4, 6}. int (unat (drop_bit 4 (?p ! 0))) = v \<and> (v = 4 \<longrightarrow> calc_checksum 0 (take 20 ?p) = 0xFFFF) \<and>
       (\<exists>src dst proto. ip_ends v ?p = Inr (src, dst, proto, length ?p) \<and>
          (proto = 6 \<or> proto = 17 \<longrightarrow> receiver_accepts v proto ?p))"
  proof (cases "v = 4")
    case True
    have p: "fst (ip_part 4 s d proto (length seg)) = store_iphdr (build_ip4 s d proto (20 + length seg))"
      by (simp add: ip_part4 Let_def)
    have "take 20 ?p = store_iphdr (build_ip4 s d proto (20 + length seg))"
      using assms(1,2) True wf_build_ip4 [of s d proto "20 + length seg", unfolded wf_iphdr_def] by (simp add: p)
    moreover have "calc_checksum 0 (store_iphdr (build_ip4 s d proto (20 + length seg))) = 0xFFFF"
      using assms(1,2) True by (simp add: build_ip4_verifies)
    moreover have "int (unat (drop_bit 4 (?p ! 0))) = 4"
      unfolding True p store_build_ip4_version by simp
    ultimately show ?thesis using ends assms(3) [OF seg] True by auto
  next
    case False
    have p: "fst (ip_part v s d proto (length seg)) = store_ip6_hdr (build_ip6 s d proto (length seg))"
      using False by (simp add: ip_part6 Let_def)
    have "int (unat (drop_bit 4 (?p ! 0))) = 6"
      unfolding p store_build_ip6_version by simp
    then show ?thesis using ends assms(3) [OF seg] False version_6 [OF False] by auto
  qed
qed

end
