(* ===== verification/Tcp_States.thy ===== *)
theory Tcp_States
  imports Util
begin

text \<open>
  The life cycle of a TCP session, as the specification the handlers of \<open>tcp.c\<close> are held
  to: which state may follow which, and the order in which a session passes through them.
  A session of port 443 is special, the CONNECT request to the proxy sends it back to \<open>LISTEN\<close>.
\<close>

section \<open>Transitions\<close>

definition live_state :: "tcp_state \<Rightarrow> bool" where
  "live_state s \<longleftrightarrow> s \<in> {TCP_LISTEN, TCP_SYN_RECV, TCP_ESTABLISHED, TCP_CLOSE_WAIT}"

inductive tcp_edge :: "bool \<Rightarrow> tcp_state \<Rightarrow> tcp_state \<Rightarrow> bool" for https :: bool where
  connected: "tcp_edge https TCP_LISTEN TCP_SYN_RECV"
| client_ack: "tcp_edge https TCP_SYN_RECV TCP_ESTABLISHED"
| client_fin: "tcp_edge https TCP_ESTABLISHED TCP_CLOSE_WAIT"
| remote_eof: "tcp_edge https TCP_ESTABLISHED TCP_FIN_WAIT1"
| remote_eof_after_fin: "tcp_edge https TCP_CLOSE_WAIT TCP_LAST_ACK"
| last_ack: "tcp_edge https TCP_LAST_ACK TCP_CLOSING"
| fin_after_eof: "tcp_edge https TCP_FIN_WAIT1 TCP_CLOSE"
| abort: "s \<noteq> TCP_CLOSE \<Longrightarrow> tcp_edge https s TCP_CLOSING"
| closed: "tcp_edge https TCP_CLOSING TCP_CLOSE"
| proxy_connect: "https \<Longrightarrow> tcp_edge https s TCP_LISTEN"

inductive_simps tcp_edge_close: "tcp_edge https TCP_CLOSE s"
inductive_simps tcp_edge_iff: "tcp_edge https s t"
inductive_cases tcp_edge_syn_recvE: "tcp_edge https TCP_SYN_RECV s"

abbreviation tcp_path :: "bool \<Rightarrow> tcp_state \<Rightarrow> tcp_state \<Rightarrow> bool" where
  "tcp_path https \<equiv> (tcp_edge https)\<^sup>*\<^sup>*"

lemma tcp_path_edge: "tcp_edge https s t \<Longrightarrow> tcp_path https s t"
  by blast

lemma tcp_path_abort: "s \<noteq> TCP_CLOSE \<Longrightarrow> tcp_path https s TCP_CLOSING"
  by (blast intro: tcp_edge.abort)

lemmas tcp_paths = tcp_edge.intros [THEN tcp_path_edge]

section \<open>The order of the life cycle\<close>

instantiation tcp_state :: linorder
begin

fun tcp_rank :: "tcp_state \<Rightarrow> nat" where
  "tcp_rank TCP_ZERO = 0"
| "tcp_rank TCP_SYN_SENT = 1"
| "tcp_rank TCP_LISTEN = 2"
| "tcp_rank TCP_SYN_RECV = 3"
| "tcp_rank TCP_ESTABLISHED = 4"
| "tcp_rank TCP_CLOSE_WAIT = 5"
| "tcp_rank TCP_FIN_WAIT1 = 6"
| "tcp_rank TCP_FIN_WAIT2 = 7"
| "tcp_rank TCP_TIME_WAIT = 8"
| "tcp_rank TCP_LAST_ACK = 9"
| "tcp_rank TCP_CLOSING = 10"
| "tcp_rank TCP_CLOSE = 11"

definition less_eq_tcp_state :: "tcp_state \<Rightarrow> tcp_state \<Rightarrow> bool" where
  "less_eq_tcp_state a b \<longleftrightarrow> tcp_rank a \<le> tcp_rank b"

definition less_tcp_state :: "tcp_state \<Rightarrow> tcp_state \<Rightarrow> bool" where
  "less_tcp_state a b \<longleftrightarrow> tcp_rank a < tcp_rank b"

instance
proof
  fix a b :: tcp_state
  show "a \<le> b \<Longrightarrow> b \<le> a \<Longrightarrow> a = b"
    by (cases a; cases b) (simp_all add: less_eq_tcp_state_def)
qed (auto simp: less_eq_tcp_state_def less_tcp_state_def)

end

text \<open>Away from port 443 a session only moves forward, and each state but the last can be left.\<close>

lemma tcp_edge_forward: "tcp_edge False s t \<Longrightarrow> s \<le> t"
  by (cases s; cases t) (auto simp: less_eq_tcp_state_def tcp_edge_iff)

lemma tcp_path_forward: "tcp_path False s t \<Longrightarrow> s \<le> t"
  by (induction rule: rtranclp_induct) (auto dest: tcp_edge_forward)

lemma tcp_path_close: "tcp_path False TCP_CLOSE s \<Longrightarrow> s = TCP_CLOSE"
  by (induction rule: rtranclp_induct) (auto simp: tcp_edge_close)

end
