(* ===== verification/Tcp_Queue.thy ===== *)
theory Tcp_Queue
  imports Session_Types
begin

text \<open>
  The send and receive buffers of a TCP session (\<open>tcp.c\<close>): the queue of segments to forward
  (\<open>queue_tcp\<close>), the window the client still grants (\<open>get_send_window\<close>), the room of the
  proxy socket (\<open>get_receive_buffer\<close>) and the window to announce (\<open>get_receive_window\<close>).
\<close>

section \<open>The code\<close>

definition get_send_window :: "tcp_session \<Rightarrow> u32" where
  "get_send_window cur =
     (let behind = (if compare_u32 (t_acked cur) (t_local_seq cur) \<le> 0
                    then t_local_seq cur - t_acked cur else t_acked cur)
      in if behind < t_send_window cur then t_send_window cur - behind else 0)"

text \<open>\<open>getsockopt(SO_SNDBUF)\<close> and \<open>ioctl(SIOCOUTQ)\<close> leave 0 behind when they fail.\<close>

definition get_receive_buffer :: "sys \<Rightarrow> int \<Rightarrow> trace \<Rightarrow> int \<times> trace" where
  "get_receive_buffer sys fd tr =
     (if fd < 0 then (0, tr)
      else
        let sendbuf = sys_sndbuf sys tr fd; tr = tr @ [ESndbuf fd];
            sendbuf = (if sendbuf = 0 then 16384 else sendbuf);
            unsent = sys_outq sys tr fd; tr = tr @ [EOutq fd]
        in (if unsent < sendbuf sdiv 2 then sendbuf sdiv 2 - unsent else 0, tr))"

text \<open>\<open>toforward += (q->len - q->sent)\<close> over the queue.\<close>

fun toforward :: "segment list \<Rightarrow> u32" where
  "toforward [] = 0"
| "toforward (q # qs) = (ucast (sg_len q) - ucast (sg_sent q)) + toforward qs"

definition get_receive_window :: "sys \<Rightarrow> tcp_session \<Rightarrow> trace \<Rightarrow> u32 \<times> trace" where
  "get_receive_window sys cur tr =
     (let fwd = toforward (t_forward cur);
          (room, tr) = get_receive_buffer sys (socket cur) tr;
          window = word_of_int room;
          max = push_bit (unat (t_recv_scale cur)) 0xFFFF;
          window = (if window > max then max else window);
          window = (if fwd < window then window - fwd else 0);
          window = (if drop_bit (unat (t_recv_scale cur)) window = 0 then 0 else window)
      in (window, tr))"

text \<open>
  The search and insertion of \<open>queue_tcp\<close>. A segment that is queued already is replaced by a
  longer one as the code does it: its data is, its \<open>len\<close> is not.
\<close>

definition new_segment :: "u32 \<Rightarrow> u16 \<Rightarrow> bool \<Rightarrow> bytes \<Rightarrow> segment" where
  "new_segment seq datalen psh data =
     \<lparr>sg_seq = seq, sg_len = datalen, sg_sent = 0, sg_psh = psh, sg_data = data\<rparr>"

fun queue_seg :: "u32 \<Rightarrow> u16 \<Rightarrow> bool \<Rightarrow> bytes \<Rightarrow> segment list \<Rightarrow> segment list result" where
  "queue_seg seq datalen psh data [] =
     rbind (rd_bytes data 0 (unat datalen)) (\<lambda>d. Inr [new_segment seq datalen psh d])"
| "queue_seg seq datalen psh data (s # ss) =
     (if compare_u32 (sg_seq s) seq < 0
      then rbind (queue_seg seq datalen psh data ss) (\<lambda>ss'. Inr (s # ss'))
      else if compare_u32 (sg_seq s) seq > 0
      then rbind (rd_bytes data 0 (unat datalen)) (\<lambda>d. Inr (new_segment seq datalen psh d # s # ss))
      else if sg_len s = datalen then Inr (s # ss)
      else if sg_len s < datalen
      then rbind (rd_bytes data 0 (unat datalen)) (\<lambda>d. Inr (s\<lparr>sg_data := d\<rparr> # ss))
      else Inr (s # ss))"

text \<open>\<open>seq\<close> and \<open>psh\<close> are read from the TCP header by the caller.\<close>

definition queue_tcp :: "u32 \<Rightarrow> bool \<Rightarrow> tcp_session \<Rightarrow> bytes \<Rightarrow> u16 \<Rightarrow> tcp_session result" where
  "queue_tcp seq psh cur data datalen =
     (if compare_u32 seq (t_remote_seq cur) < 0 then Inr cur
      else rbind (queue_seg seq datalen psh data (t_forward cur))
             (\<lambda>f. Inr (cur\<lparr>t_forward := f\<rparr>)))"

section \<open>Windows\<close>

lemma get_send_window_le: "get_send_window cur \<le> t_send_window cur"
  by (auto simp: get_send_window_def Let_def word_le_nat_alt word_less_nat_alt unat_sub_if')

lemma get_send_window_in_flight:
  assumes "compare_u32 (t_acked cur) (t_local_seq cur) \<le> 0"
  shows "unat (get_send_window cur)
       = unat (t_send_window cur) - unat (t_local_seq cur - t_acked cur)"
  using assms
  by (auto simp: get_send_window_def Let_def word_less_nat_alt unat_sub_if')

lemma get_receive_buffer_nonneg: "0 \<le> fst (get_receive_buffer sys fd tr)"
  by (simp add: get_receive_buffer_def Let_def)

section \<open>The queue invariant\<close>

text \<open>
  Neighbours are in sequence order, no segment is sent beyond its length, and each holds at
  least \<open>len\<close> bytes.
\<close>

definition seg_ok :: "segment \<Rightarrow> bool" where
  "seg_ok s \<longleftrightarrow> sg_sent s \<le> sg_len s \<and> unat (sg_len s) \<le> length (sg_data s)"

definition seq_before :: "segment \<Rightarrow> segment \<Rightarrow> bool" where
  "seq_before a b \<longleftrightarrow> compare_u32 (sg_seq b) (sg_seq a) > 0"

definition queue_inv :: "segment list \<Rightarrow> bool" where
  "queue_inv q \<longleftrightarrow> successively seq_before q \<and> (\<forall>s \<in> set q. seg_ok s)"

lemma queue_inv_Nil [simp]: "queue_inv []"
  by (simp add: queue_inv_def)

lemma queue_inv_Cons:
  "queue_inv (s # ss) \<longleftrightarrow> seg_ok s \<and> queue_inv ss \<and> (ss = [] \<or> seq_before s (hd ss))"
  by (cases ss) (auto simp: queue_inv_def)

lemma queue_inv_tl: "queue_inv q \<Longrightarrow> queue_inv (tl q)"
  by (cases q) (simp_all add: queue_inv_Cons)

lemma seg_ok_new: "seg_ok (new_segment seq datalen psh (take (unat datalen) data))"
  if "unat datalen \<le> length data"
  using that by (simp add: seg_ok_def new_segment_def)

lemma sg_seq_new [simp]: "sg_seq (new_segment seq datalen psh d) = seq"
  by (simp add: new_segment_def)

lemma queue_seg_hd:
  "queue_seg seq datalen psh data q = Inr q' \<Longrightarrow>
   q' \<noteq> [] \<and> (sg_seq (hd q') = seq \<or> q \<noteq> [] \<and> sg_seq (hd q') = sg_seq (hd q))"
  by (cases q) (auto simp: rbind_eq_Inr split: if_splits)

lemma queue_seg_inv:
  "queue_inv q \<Longrightarrow> queue_seg seq datalen psh data q = Inr q' \<Longrightarrow> queue_inv q'"
proof (induction q arbitrary: q')
  case Nil
  then show ?case
    by (auto simp: rbind_eq_Inr rd_bytes_eq_Inr queue_inv_Cons seg_ok_new)
next
  case (Cons s ss)
  consider (skip) "compare_u32 (sg_seq s) seq < 0" | (here) "compare_u32 (sg_seq s) seq > 0"
    | (same) "sg_seq s = seq"
    using compare_u32_zero [of "sg_seq s" seq] by linarith
  then show ?case
  proof cases
    case skip
    with Cons.prems obtain ss' where ss': "queue_seg seq datalen psh data ss = Inr ss'" "q' = s # ss'"
      by (auto simp: rbind_eq_Inr)
    have "seq_before s (hd ss')"
      using queue_seg_hd [OF ss'(1)] skip Cons.prems(1)
      by (auto simp: seq_before_def queue_inv_Cons compare_u32_less_rev)
    with Cons ss' show ?thesis by (auto simp: queue_inv_Cons)
  next
    case here
    with Cons.prems show ?thesis
      by (auto simp: rbind_eq_Inr rd_bytes_eq_Inr queue_inv_Cons seg_ok_new seq_before_def)
  next
    case same
    with Cons.prems show ?thesis
      by (auto simp: rbind_eq_Inr rd_bytes_eq_Inr queue_inv_Cons seg_ok_def seq_before_def
          word_less_nat_alt word_le_nat_alt split: if_splits)
  qed
qed

lemma queue_seg_total:
  "unat datalen \<le> length data \<Longrightarrow> \<exists>q'. queue_seg seq datalen psh data q = Inr q'"
  by (induction q) auto

lemma queue_seg_keys:
  "queue_seg seq datalen psh data q = Inr q' \<Longrightarrow>
   set (map sg_seq q') = insert seq (set (map sg_seq q))"
proof (induction q arbitrary: q')
  case (Cons s ss)
  then show ?case
    using compare_u32_zero [of "sg_seq s" seq]
    by (fastforce simp: rbind_eq_Inr split: if_splits)
qed (auto simp: rbind_eq_Inr)

text \<open>What is queued for another sequence number stays as it is.\<close>

lemma queue_seg_other:
  "queue_seg seq datalen psh data q = Inr q' \<Longrightarrow>
   filter (\<lambda>s. sg_seq s \<noteq> seq) q' = filter (\<lambda>s. sg_seq s \<noteq> seq) q"
proof (induction q arbitrary: q')
  case (Cons s ss)
  then show ?case
    using compare_u32_zero [of "sg_seq s" seq]
    by (fastforce simp: rbind_eq_Inr split: if_splits)
qed (auto simp: rbind_eq_Inr)

text \<open>A retransmission of the same length changes nothing.\<close>

lemma queue_seg_idem:
  "queue_seg seq datalen psh data q = Inr q' \<Longrightarrow> \<forall>s \<in> set q'. sg_seq s = seq \<longrightarrow> sg_len s = datalen \<Longrightarrow>
   queue_seg seq datalen psh' data' q' = Inr q'"
proof (induction q arbitrary: q')
  case Nil
  then show ?case by (auto simp: rbind_eq_Inr new_segment_def)
next
  case (Cons s ss)
  consider (skip) "compare_u32 (sg_seq s) seq < 0" | (here) "compare_u32 (sg_seq s) seq > 0"
    | (same) "sg_seq s = seq"
    using compare_u32_zero [of "sg_seq s" seq] by linarith
  then show ?case
  proof cases
    case skip
    with Cons show ?thesis by (fastforce simp: rbind_eq_Inr)
  next
    case here
    with Cons.prems show ?thesis by (auto simp: rbind_eq_Inr new_segment_def)
  next
    case same
    then show ?thesis using Cons.prems by (auto simp: rbind_eq_Inr split: if_splits)
  qed
qed

section \<open>queue_tcp\<close>



text \<open>
  A retransmission that is longer than what is queued for its number replaces the data but not
  the length, so the additional bytes are never forwarded.
\<close>

theorem longer_retransmission_keeps_length:
  assumes "queue_seg seq datalen psh data (s # ss) = Inr q'" "sg_seq s = seq" "sg_len s < datalen"
  shows "q' = s\<lparr>sg_data := take (unat datalen) data\<rparr> # ss \<and> map sg_len q' = map sg_len (s # ss)"
proof -
  have "sg_len s \<noteq> datalen" using assms(3) by auto
  then show ?thesis using assms by (auto simp: rbind_eq_Inr rd_bytes_eq_Inr)
qed

theorem longer_retransmission_keeps_length_witness:
  "queue_seg 5 3 True [7, 8, 9] [new_segment 5 2 True [7, 8]]
     = Inr [(new_segment 5 2 True [7, 8])\<lparr>sg_data := [7, 8, 9]\<rparr>]"
proof -
  obtain q' where q: "queue_seg 5 3 True [7, 8, 9] [new_segment 5 2 True [7, 8]] = Inr q'"
    using queue_seg_total [of 3 "[7, 8, 9]"] by fastforce
  then show ?thesis
    using longer_retransmission_keeps_length [OF q] by (simp add: new_segment_def)
qed

end
