(* ===== verification/Tcp_Output.thy ===== *)
theory Tcp_Output
  imports Ip_Output
begin

text \<open>
  The segments the library writes to the tun device on behalf of the remote end
  (\<open>write_tcp\<close> of \<open>tcp.c\<close> and its five callers). The packet is built field by field as the
  code does; theorems say that a receiver accepts its checksums and reads the session's
  addresses, ports and numbers back from it.
\<close>

section \<open>Building the packet\<close>

definition IPPROTO_TCP :: byte where "IPPROTO_TCP = 6"

definition tcp_optlen :: "bool \<Rightarrow> nat" where
  "tcp_optlen syn = (if syn then 4 + 3 + 1 else 0)"

text \<open>The MSS option is stored with a native 16 bit store of \<open>get_default_mss\<close>.\<close>

definition tcp_options :: "tcp_session \<Rightarrow> bool \<Rightarrow> bytes" where
  "tcp_options cur syn =
     (if syn then [2, 4] @ st16 (get_default_mss (t_version cur)) @ [3, 3, t_recv_scale cur] @ [0]
      else [])"

definition build_tcp :: "tcp_session \<Rightarrow> bool \<Rightarrow> bool \<Rightarrow> bool \<Rightarrow> bool \<Rightarrow> tcphdr" where
  "build_tcp cur syn ack fin rst =
     (let h = zero_tcphdr\<lparr>th_source := t_dest cur, th_dest := t_source cur,
                th_seq := htonl (t_local_seq cur), th_ack_seq := htonl (t_remote_seq cur),
                th_doff := of_nat ((20 + tcp_optlen syn) div 4),
                th_syn := syn, th_ack := ack, th_fin := fin, th_rst := rst,
                th_window := htons (ucast (drop_bit (unat (t_recv_scale cur)) (t_recv_window cur)))\<rparr>
      in if \<not> ack then h\<lparr>th_ack_seq := 0\<rparr> else h)"

text \<open>The IP header and the sum over the pseudo header.\<close>

definition tcp_ip_part :: "tcp_session \<Rightarrow> nat \<Rightarrow> bytes \<times> u16" where
  "tcp_ip_part cur seglen = ip_part (t_version cur) (t_saddr cur) (t_daddr cur) IPPROTO_TCP seglen"

definition tcp_packet :: "tcp_session \<Rightarrow> bytes \<Rightarrow> bool \<Rightarrow> bool \<Rightarrow> bool \<Rightarrow> bool \<Rightarrow> bytes" where
  "tcp_packet cur data syn ack fin rst =
     (let (iph, csum) = tcp_ip_part cur (20 + tcp_optlen syn + length data);
          tcp = build_tcp cur syn ack fin rst;
          options = tcp_options cur syn;
          csum = calc_checksum csum (store_tcphdr tcp);
          csum = calc_checksum csum options;
          csum = calc_checksum csum data;
          tcp = tcp\<lparr>th_check := NOT csum\<rparr>
      in iph @ store_tcphdr tcp @ options @ data)"

text \<open>\<open>if (res != len) return -1\<close>.\<close>

definition write_tcp ::
  "sys \<Rightarrow> tcp_session \<Rightarrow> bytes \<Rightarrow> bool \<Rightarrow> bool \<Rightarrow> bool \<Rightarrow> bool \<Rightarrow> trace \<Rightarrow> int \<times> trace" where
  "write_tcp sys cur data syn ack fin rst tr =
     (let buffer = tcp_packet cur data syn ack fin rst;
          res = sys_tun_write sys tr buffer;
          tr = tr @ [ETunWrite buffer]
      in (if res \<noteq> int (length buffer) then -1 else res, tr))"

section \<open>The callers\<close>

definition write_syn_ack :: "sys \<Rightarrow> tcp_session \<Rightarrow> trace \<Rightarrow> int \<times> tcp_session \<times> trace" where
  "write_syn_ack sys cur tr =
     (let (r, tr) = write_tcp sys cur [] True True False False tr
      in if r < 0 then (-1, cur\<lparr>t_state := TCP_CLOSING\<rparr>, tr) else (0, cur, tr))"

definition write_ack :: "sys \<Rightarrow> tcp_session \<Rightarrow> trace \<Rightarrow> int \<times> tcp_session \<times> trace" where
  "write_ack sys cur tr =
     (let (r, tr) = write_tcp sys cur [] False True False False tr
      in if r < 0 then (-1, cur\<lparr>t_state := TCP_CLOSING\<rparr>, tr) else (0, cur, tr))"

definition write_data :: "sys \<Rightarrow> tcp_session \<Rightarrow> bytes \<Rightarrow> trace \<Rightarrow> int \<times> tcp_session \<times> trace" where
  "write_data sys cur buffer tr =
     (let (r, tr) = write_tcp sys cur buffer False True False False tr
      in if r < 0 then (-1, cur\<lparr>t_state := TCP_CLOSING\<rparr>, tr) else (0, cur, tr))"

definition write_fin_ack :: "sys \<Rightarrow> tcp_session \<Rightarrow> trace \<Rightarrow> int \<times> tcp_session \<times> trace" where
  "write_fin_ack sys cur tr =
     (let (r, tr) = write_tcp sys cur [] False True True False tr
      in if r < 0 then (-1, cur\<lparr>t_state := TCP_CLOSING\<rparr>, tr) else (0, cur, tr))"

definition write_rst :: "sys \<Rightarrow> tcp_session \<Rightarrow> trace \<Rightarrow> tcp_session \<times> trace" where
  "write_rst sys cur tr =
     (let (ack, cur) = (if t_state cur = TCP_LISTEN
                        then (True, cur\<lparr>t_remote_seq := t_remote_seq cur + 1\<rparr>)
                        else (False, cur));
          (r, tr) = write_tcp sys cur [] False ack False True tr
      in (if t_state cur \<noteq> TCP_CLOSE then cur\<lparr>t_state := TCP_CLOSING\<rparr> else cur, tr))"

section \<open>The contract of the writers\<close>

text \<open>
  The four writers share one contract: exactly one packet goes to the tun, a failed write
  gives -1 and closes the session, a good one gives 0 and leaves the session as it is.
\<close>

locale tcp_writer =
  fixes w :: "sys \<Rightarrow> tcp_session \<Rightarrow> trace \<Rightarrow> int \<times> tcp_session \<times> trace"
    and pkt :: "tcp_session \<Rightarrow> bytes"
  assumes w_eq: "w sys cur tr =
     (if sys_tun_write sys tr (pkt cur) = int (length (pkt cur))
      then (0, cur, tr @ [ETunWrite (pkt cur)])
      else (-1, cur\<lparr>t_state := TCP_CLOSING\<rparr>, tr @ [ETunWrite (pkt cur)]))"
begin

lemma trace: "snd (snd (w sys cur tr)) = tr @ [ETunWrite (pkt cur)]"
  by (simp add: w_eq)

lemma ok: "0 \<le> fst (w sys cur tr) \<Longrightarrow> fst (snd (w sys cur tr)) = cur"
  by (cases "sys_tun_write sys tr (pkt cur) = int (length (pkt cur))") (simp_all add: w_eq)

lemma fail: "fst (w sys cur tr) < 0 \<Longrightarrow> fst (snd (w sys cur tr)) = cur\<lparr>t_state := TCP_CLOSING\<rparr>"
  by (cases "sys_tun_write sys tr (pkt cur) = int (length (pkt cur))") (simp_all add: w_eq)

text \<open>Only the state can change.\<close>

lemma frame: "w sys cur tr = (r, cur', tr') \<Longrightarrow> \<exists>st. cur' = cur\<lparr>t_state := st\<rparr> \<and>
    (st = t_state cur \<or> st = TCP_CLOSING)"
  by (cases "sys_tun_write sys tr (pkt cur) = int (length (pkt cur))")
    (auto simp: w_eq intro: exI [of _ "t_state cur"])

end

lemma write_tcp_eq:
  "write_tcp sys cur data syn ack fin rst tr =
     (if sys_tun_write sys tr (tcp_packet cur data syn ack fin rst)
         = int (length (tcp_packet cur data syn ack fin rst))
      then int (length (tcp_packet cur data syn ack fin rst)) else -1,
      tr @ [ETunWrite (tcp_packet cur data syn ack fin rst)])"
  by (simp add: write_tcp_def Let_def)

interpretation syn_ack: tcp_writer write_syn_ack "\<lambda>c. tcp_packet c [] True True False False"
  by unfold_locales (simp add: write_syn_ack_def write_tcp_eq)

interpretation ack: tcp_writer write_ack "\<lambda>c. tcp_packet c [] False True False False"
  by unfold_locales (simp add: write_ack_def write_tcp_eq)

interpretation fin_ack: tcp_writer write_fin_ack "\<lambda>c. tcp_packet c [] False True True False"
  by unfold_locales (simp add: write_fin_ack_def write_tcp_eq)

interpretation data: tcp_writer "\<lambda>sys cur. write_data sys cur b"
    "\<lambda>c. tcp_packet c b False True False False" for b
  by unfold_locales (simp add: write_data_def write_tcp_eq)

lemma write_rst_eq:
  "write_rst sys cur tr =
     (let c = (if t_state cur = TCP_LISTEN then cur\<lparr>t_remote_seq := t_remote_seq cur + 1\<rparr> else cur)
      in (if t_state cur = TCP_CLOSE then cur else c\<lparr>t_state := TCP_CLOSING\<rparr>,
          tr @ [ETunWrite (tcp_packet c [] False (t_state cur = TCP_LISTEN) False True)]))"
  by (simp add: write_rst_def write_tcp_eq Let_def)


section \<open>What a receiver sees\<close>

text \<open>The place the checksum is filled in.\<close>

definition tcp_pre :: "tcphdr \<Rightarrow> bytes" where
  "tcp_pre h = take 16 (store_tcphdr h)"

lemma tcp_pre_length [simp]: "length (tcp_pre h) = 16"
  by (simp add: tcp_pre_def)

lemma store_tcphdr_check:
  "store_tcphdr (h\<lparr>th_check := c\<rparr>) = tcp_pre h @ st16 c @ st16 (th_urg_ptr h)"
  by (simp add: tcp_pre_def store_tcphdr_def st16_def st32_def tcp_flag_byte_def)

lemma store_tcphdr_check_0:
  "th_check h = 0 \<Longrightarrow> store_tcphdr h = tcp_pre h @ [0, 0] @ st16 (th_urg_ptr h)"
  using store_tcphdr_check [where h = h and c = 0] by (cases h) (simp add: st16_def)

lemma build_tcp_check_0: "th_check (build_tcp cur syn ack fin rst) = 0"
  by (simp add: build_tcp_def Let_def zero_tcphdr_def)

lemma wf_build_tcp: "wf_tcphdr (build_tcp cur syn ack fin rst\<lparr>th_check := c\<rparr>)"
  by (simp add: wf_tcphdr_def build_tcp_def Let_def zero_tcphdr_def tcp_optlen_def)

lemma length_tcp_options [simp, len_simps]: "length (tcp_options cur syn) = tcp_optlen syn"
  by (simp add: tcp_options_def tcp_optlen_def)

lemma even_tcp_optlen [simp]: "even (tcp_optlen syn)"
  by (simp add: tcp_optlen_def)

text \<open>The segment, its checksum field included, verifies behind any even pseudo header.\<close>

lemma tcp_segment_verifies:
  assumes "even (length ph)" "length ph + length dat \<le> 131000"
    and "h = build_tcp cur syn ack fin rst"
    and "c = NOT (calc_checksum (calc_checksum (calc_checksum (calc_checksum 0 ph)
            (store_tcphdr h)) (tcp_options cur syn)) dat)"
  shows "calc_checksum 0 (ph @ store_tcphdr (h\<lparr>th_check := c\<rparr>) @ tcp_options cur syn @ dat) = 0xFFFF"
proof -
  have "tcp_optlen syn \<le> 8" by (simp add: tcp_optlen_def)
  moreover have "store_tcphdr h = tcp_pre h @ [0, 0] @ st16 (th_urg_ptr h)"
    by (rule store_tcphdr_check_0) (simp add: assms(3) build_tcp_check_0)
  ultimately show ?thesis
    using calc.segment_verifies [of ph "tcp_pre h" "st16 (th_urg_ptr h)" "tcp_options cur syn" dat c]
      assms by (simp add: store_tcphdr_check)
qed


section \<open>The packet as a whole\<close>

definition tcp_filled :: "tcp_session \<Rightarrow> bytes \<Rightarrow> bool \<Rightarrow> bool \<Rightarrow> bool \<Rightarrow> bool \<Rightarrow> tcphdr" where
  "tcp_filled cur data syn ack fin rst =
     (let h = build_tcp cur syn ack fin rst
      in h\<lparr>th_check := NOT (calc_checksum (calc_checksum (calc_checksum
           (snd (tcp_ip_part cur (20 + tcp_optlen syn + length data)))
           (store_tcphdr h)) (tcp_options cur syn)) data)\<rparr>)"

lemma tcp_packet_eq:
  "tcp_packet cur data syn ack fin rst =
     fst (tcp_ip_part cur (20 + tcp_optlen syn + length data))
     @ store_tcphdr (tcp_filled cur data syn ack fin rst) @ tcp_options cur syn @ data"
  by (simp add: tcp_packet_def tcp_filled_def Let_def split: prod.splits)

definition tcp_addrs_ok :: "tcp_session \<Rightarrow> bool" where
  "tcp_addrs_ok cur \<longleftrightarrow> addr_ok (t_version cur) (t_saddr cur) \<and> addr_ok (t_version cur) (t_daddr cur)"

lemma length_tcp_ip_part:
  "tcp_addrs_ok cur \<Longrightarrow> length (fst (tcp_ip_part cur n)) = ip_hdr_len (t_version cur)"
  by (simp add: tcp_ip_part_def tcp_addrs_ok_def length_ip_part)

lemma length_tcp_packet [len_simps]:
  "tcp_addrs_ok cur \<Longrightarrow> length (tcp_packet cur data syn ack fin rst)
     = ip_hdr_len (t_version cur) + 20 + tcp_optlen syn + length data"
  by (simp add: tcp_packet_eq length_tcp_ip_part)

lemma drop_tcp_packet:
  "tcp_addrs_ok cur \<Longrightarrow> drop (ip_hdr_len (t_version cur)) (tcp_packet cur data syn ack fin rst)
     = store_tcphdr (tcp_filled cur data syn ack fin rst) @ tcp_options cur syn @ data"
  by (simp add: tcp_packet_eq length_tcp_ip_part)

lemma take_tcp_packet:
  "tcp_addrs_ok cur \<Longrightarrow> take (ip_hdr_len (t_version cur)) (tcp_packet cur data syn ack fin rst)
     = fst (tcp_ip_part cur (20 + tcp_optlen syn + length data))"
  by (simp add: tcp_packet_eq length_tcp_ip_part)

lemma tcp_filled_verifies:
  assumes "snd (tcp_ip_part cur (20 + tcp_optlen syn + length data)) = calc_checksum 0 ph"
    and "even (length ph)" "length ph + length data \<le> 131000"
  shows "calc_checksum 0 (ph @ store_tcphdr (tcp_filled cur data syn ack fin rst)
    @ tcp_options cur syn @ data) = 0xFFFF"
  using tcp_segment_verifies [OF assms(2,3) refl refl] assms(1)
  by (simp add: tcp_filled_def Let_def)

lemma tcp_ip_part4:
  "t_version cur = 4 \<Longrightarrow> tcp_ip_part cur n =
     (let ip = build_ip4 (t_saddr cur) (t_daddr cur) 6 (20 + n)
      in (store_iphdr ip,
          calc_checksum 0 (store_ippseudo (ip_saddr ip) (ip_daddr ip) 6 (htons (of_nat n)))))"
  by (simp add: tcp_ip_part_def ip_part4 IPPROTO_TCP_def)

lemma tcp_optlen_le: "tcp_optlen syn \<le> 8"
  by (simp add: tcp_optlen_def)

lemma tcp_packet_accepts:
  assumes "tcp_addrs_ok cur" "length data \<le> 65000"
  shows "receiver_accepts (t_version cur) 6 (tcp_packet cur data syn ack fin rst)"
proof -
  let ?seg = "store_tcphdr (tcp_filled cur data syn ack fin rst) @ tcp_options cur syn @ data"
  have len: "length ?seg = 20 + tcp_optlen syn + length data" by simp
  have p: "tcp_packet cur data syn ack fin rst
      = fst (ip_part (t_version cur) (t_saddr cur) (t_daddr cur) 6 (length ?seg)) @ ?seg"
    unfolding len by (simp add: tcp_packet_eq tcp_ip_part_def IPPROTO_TCP_def)
  show ?thesis
    unfolding p using assms tcp_optlen_le [of syn]
    by (intro ip_part_accepts tcp_filled_verifies)
      (simp_all add: tcp_addrs_ok_def tcp_ip_part_def IPPROTO_TCP_def add.assoc)
qed

text \<open>
  C12: For every session and every payload that fits a packet, a receiver accepts the packet
  \<open>write_tcp\<close> builds: an IPv4 header sums to 0xFFFF, and so does the TCP segment behind the pseudo
  header of the packet's own addresses (RFC 793, or RFC 8200 for IPv6, where the code sums a pseudo
  header with the two addresses exchanged and a 16 bit length put into the 32 bit field unconverted).
\<close>

theorem tcp_packet_verifies:
  assumes "tcp_addrs_ok cur" "length data \<le> 65000"
  shows "receiver_accepts (t_version cur) 6 (tcp_packet cur data syn ack fin rst)"
  using assms by (rule tcp_packet_accepts)

theorem tcp_packet_verifies_witness:
  "receiver_accepts 6 6 (tcp_packet (zero_tcp_session\<lparr>t_version := 6\<rparr>) [1, 2, 3] False True False False)"
  using tcp_packet_verifies [of "zero_tcp_session\<lparr>t_version := 6\<rparr>" "[1, 2, 3]" False True False False]
  by (simp add: tcp_addrs_ok_def addr_ok_def zero_tcp_session_def)

lemma tcp_filled_fields:
  "th_source (tcp_filled cur data syn ack fin rst) = t_dest cur"
  "th_dest (tcp_filled cur data syn ack fin rst) = t_source cur"
  "th_seq (tcp_filled cur data syn ack fin rst) = htonl (t_local_seq cur)"
  "th_ack_seq (tcp_filled cur data syn ack fin rst) = (if ack then htonl (t_remote_seq cur) else 0)"
  "unat (th_doff (tcp_filled cur data syn ack fin rst)) * 4 = 20 + tcp_optlen syn"
  "th_syn (tcp_filled cur data syn ack fin rst) = syn"
  "th_ack (tcp_filled cur data syn ack fin rst) = ack"
  "th_fin (tcp_filled cur data syn ack fin rst) = fin"
  "th_rst (tcp_filled cur data syn ack fin rst) = rst"
  "th_window (tcp_filled cur data syn ack fin rst)
     = htons (ucast (drop_bit (unat (t_recv_scale cur)) (t_recv_window cur)))"
  by (simp_all add: tcp_filled_def build_tcp_def Let_def zero_tcphdr_def tcp_optlen_def)

lemma load_tcp_packet:
  "tcp_addrs_ok cur \<Longrightarrow>
   load_tcphdr (drop (ip_hdr_len (t_version cur)) (tcp_packet cur data syn ack fin rst))
     = Inr (tcp_filled cur data syn ack fin rst)"
  using wf_build_tcp [where cur = cur and syn = syn and ack = ack and fin = fin and rst = rst]
  by (simp add: drop_tcp_packet load_store_tcphdr tcp_filled_def Let_def)

lemma tcp4_packet_loads:
  assumes "t_version cur = 4" "tcp_addrs_ok cur"
  shows "\<exists>ip. load_iphdr (tcp_packet cur data syn ack fin rst) = Inr ip \<and> ip_version ip = 4
    \<and> ip_saddr ip = ip4 (t_daddr cur) \<and> ip_daddr ip = ip4 (t_saddr cur)"
proof -
  have ok: "addr_ok 4 (t_saddr cur)" "addr_ok 4 (t_daddr cur)"
    using assms by (simp_all add: tcp_addrs_ok_def)
  show ?thesis
    using load_store_iphdr [OF wf_build_ip4 [OF ok]]
    by (simp add: tcp_packet_eq tcp_ip_part4 [OF assms(1)] Let_def) (simp add: build_ip4_def Let_def)
qed

text \<open>
  C13: A client that parses an IPv4 packet of \<open>write_tcp\<close> finds itself as the destination and the
  remote end as the source (addresses and ports exchanged), the packet's own length, the session's
  sequence number, its acknowledgement number exactly if ACK is set, the four flags asked for, the
  scaled receive window, and behind \<open>doff\<close> words the payload.
\<close>

theorem tcp4_packet_reads_back:
  assumes "t_version cur = 4" "tcp_addrs_ok cur" "length data \<le> 65000"
    and "p = tcp_packet cur data syn ack fin rst"
  shows "\<exists>ip th. load_iphdr p = Inr ip \<and> load_tcphdr (drop 20 p) = Inr th
    \<and> ip_version ip = 4 \<and> ip_ihl ip = 5 \<and> unat (ntohs (ip_tot_len ip)) = length p
    \<and> ip_protocol ip = 6 \<and> ip_saddr ip = ip4 (t_daddr cur) \<and> ip_daddr ip = ip4 (t_saddr cur)
    \<and> th_source th = t_dest cur \<and> th_dest th = t_source cur
    \<and> ntohl (th_seq th) = t_local_seq cur
    \<and> ntohl (th_ack_seq th) = (if ack then t_remote_seq cur else 0)
    \<and> (th_syn th, th_ack th, th_fin th, th_rst th) = (syn, ack, fin, rst)
    \<and> ntohs (th_window th) = ucast (drop_bit (unat (t_recv_scale cur)) (t_recv_window cur))
    \<and> drop (20 + unat (th_doff th) * 4) p = data"
proof (intro exI conjI)
  define n where "n = 20 + tcp_optlen syn + length data"
  define ip where "ip = build_ip4 (t_saddr cur) (t_daddr cur) 6 (20 + n)"
  have ok: "addr_ok 4 (t_saddr cur)" "addr_ok 4 (t_daddr cur)"
    using assms(1,2) by (simp_all add: tcp_addrs_ok_def)
  have p: "p = store_iphdr ip @ store_tcphdr (tcp_filled cur data syn ack fin rst)
      @ tcp_options cur syn @ data"
    using assms(1) by (simp add: assms(4) tcp_packet_eq tcp_ip_part4 Let_def ip_def n_def)
  show "load_iphdr p = Inr ip"
    using wf_build_ip4 [OF ok] unfolding p by (simp add: load_store_iphdr ip_def)
  show "load_tcphdr (drop 20 p) = Inr (tcp_filled cur data syn ack fin rst)"
    using load_tcp_packet [OF assms(2)] assms(1,4) by (simp add: ip_hdr_len_def)
  have len: "length p = 20 + n"
    using assms by (simp add: length_tcp_packet ip_hdr_len_def n_def)
  have "20 + n < 65536" using assms(3) tcp_optlen_le [of syn] by (simp add: n_def)
  then show "unat (ntohs (ip_tot_len ip)) = length p"
    unfolding len ip_def build_ip4_def by (simp add: Let_def unsigned_of_nat take_bit_nat_eq_self
        del: of_nat_add)
  show "drop (20 + unat (th_doff (tcp_filled cur data syn ack fin rst)) * 4) p = data"
    using len by (simp add: tcp_filled_fields p n_def)
qed (simp_all add: tcp_filled_fields build_ip4_def Let_def)


theorem tcp4_packet_reads_back_witness:
  "let cur = zero_tcp_session\<lparr>t_version := 4, t_local_seq := 7\<rparr>;
       p = tcp_packet cur [1, 2, 3] False True False False
   in \<exists>th. load_tcphdr (drop 20 p) = Inr th \<and> ntohl (th_seq th) = 7"
  using tcp4_packet_reads_back [of "zero_tcp_session\<lparr>t_version := 4, t_local_seq := 7\<rparr>" "[1, 2, 3]",
      OF _ _ _ refl, of False True False False]
  unfolding Let_def by (simp add: tcp_addrs_ok_def addr_ok_def zero_tcp_session_def) blast

text \<open>
  The MSS a SYN-ACK announces is not the one the code means: the option is stored without
  \<open>htons\<close>, so a client that reads it in network order sees 59430 instead of 9960 bytes on IPv4, and
  54310 instead of 9940 on any other version.
\<close>

theorem syn_ack_mss_byte_order:
  "let o' = tcp_options cur True
   in take 2 o' = [2, 4]
    \<and> be16_at (o' ! 2) (o' ! 3) = (if t_version cur = 4 then 59430 else 54310)
    \<and> unat (get_default_mss (t_version cur)) = (if t_version cur = 4 then 9960 else 9940)"
  by (simp add: tcp_options_def st16_def get_default_mss_def get_mtu_def MTU_def be16_at_def Let_def
      unsigned_ucast_eq unsigned_drop_bit_eq take_bit_eq_mod drop_bit_eq_div)

end
