(* ===== verification/Tcp_Options.thy ===== *)
theory Tcp_Options
  imports Prelude
begin

text \<open>
  The option loop of \<open>handle_tcp\<close> (\<open>tcp.c\<close>): it reads the MSS and the window scale of a SYN. The
  loop trusts the option's own length byte, so it is a partial function: \<open>None\<close> is an endless loop.
\<close>

section \<open>The code\<close>

text \<open>The body for one option: the values after it.\<close>

definition tcp_option :: "bytes \<Rightarrow> byte \<Rightarrow> byte \<Rightarrow> u16 \<times> byte \<Rightarrow> (u16 \<times> byte) result" where
  "tcp_option options kind len mw =
     (if kind = 2 \<and> len = 4
      then rbind (rd options 2) (\<lambda>a. rbind (rd options 3) (\<lambda>b. Inr (ntohs (ld16 a b), snd mw)))
      else if kind = 3 \<and> len = 3
      then rbind (rd options 2) (\<lambda>a. Inr (fst mw, a))
      else Inr mw)"

partial_function (option) tcp_option_loop ::
  "bytes \<Rightarrow> int \<Rightarrow> u16 \<times> byte \<Rightarrow> (u16 \<times> byte) result option" where
  "tcp_option_loop options optlen mw =
     (if optlen > 0 then
        case rd options 0 of Inl e \<Rightarrow> Some (Inl e) | Inr kind \<Rightarrow>
        case rd options 1 of Inl e \<Rightarrow> Some (Inl e) | Inr len \<Rightarrow>
        if kind = 0 then Some (Inr mw) else
        case tcp_option options kind len mw of Inl e \<Rightarrow> Some (Inl e) | Inr mw \<Rightarrow>
        if kind = 1 then tcp_option_loop (drop 1 options) (optlen - 1) mw
        else tcp_option_loop (drop (unat len) options) (optlen - int (unat len)) mw
      else Some (Inr mw))"

definition tcp_options_in :: "bytes \<Rightarrow> byte \<Rightarrow> u16 \<Rightarrow> (u16 \<times> byte) result" where
  "tcp_options_in options optlen mss = returned (tcp_option_loop options (int (unat optlen)) (mss, 0))"

section \<open>Well-formed options\<close>

text \<open>A no-op, or a kind (neither end nor no-op), the length of the whole option, and its value.\<close>

datatype tcp_opt = NoOp | Opt byte bytes

definition opt_ok :: "tcp_opt \<Rightarrow> bool" where
  "opt_ok o' = (case o' of NoOp \<Rightarrow> True | Opt k v \<Rightarrow> k \<noteq> 0 \<and> k \<noteq> 1 \<and> length v \<le> 38)"

definition opt_bytes :: "tcp_opt \<Rightarrow> bytes" where
  "opt_bytes o' = (case o' of NoOp \<Rightarrow> [1] | Opt k v \<Rightarrow> [k, of_nat (length v + 2)] @ v)"

definition opt_apply :: "tcp_opt \<Rightarrow> u16 \<times> byte \<Rightarrow> u16 \<times> byte" where
  "opt_apply o' mw = (case o' of
      Opt k v \<Rightarrow> if k = 2 \<and> length v = 2 then (ld16 (v ! 1) (v ! 0), snd mw)
                  else if k = 3 \<and> length v = 1 then (fst mw, v ! 0) else mw
    | NoOp \<Rightarrow> mw)"

lemma unat_opt_len: "n \<le> 38 \<Longrightarrow> unat (of_nat (n + 2) :: byte) = n + 2"
  by (subst unsigned_of_nat) (simp add: take_bit_nat_eq_self)

lemma opt_len_eq:
  assumes "n \<le> 38"
  shows "(of_nat (n + 2) :: byte) = 4 \<longleftrightarrow> n = 2" "(of_nat (n + 2) :: byte) = 3 \<longleftrightarrow> n = 1"
proof -
  have "(of_nat (n + 2) :: byte) = w \<longleftrightarrow> n + 2 = unat w" for w
    using unat_opt_len [OF assms] by (metis unsigned_word_eqI)
  from this [of 4] this [of 3] show "(of_nat (n + 2) :: byte) = 4 \<longleftrightarrow> n = 2"
    "(of_nat (n + 2) :: byte) = 3 \<longleftrightarrow> n = 1" by auto
qed

lemma tcp_option_apply:
  "length v \<le> 38 \<Longrightarrow>
   tcp_option (k # of_nat (length v + 2) # v @ rest) k (of_nat (length v + 2)) mw = Inr (opt_apply (Opt k v) mw)"
  unfolding tcp_option_def opt_apply_def opt_len_eq
  by (auto simp: length_Suc_conv numeral_2_eq_2 numeral_3_eq_3 ntohs_ld16 rd_def nth_append)

lemma tcp_option_loop_step:
  assumes "opt_ok o'" "opt_bytes o' @ rest \<noteq> [1]" "n > 0"
  shows "tcp_option_loop (opt_bytes o' @ rest) n mw
    = tcp_option_loop rest (n - int (length (opt_bytes o'))) (opt_apply o' mw)"
proof (cases o')
  case NoOp
  then show ?thesis using assms
    by (cases rest) (simp_all add: tcp_option_loop.simps [of "1 # _"] opt_bytes_def opt_apply_def
        tcp_option_def)
next
  case (Opt k v)
  then have k: "k \<noteq> 0" "k \<noteq> 1" "length v \<le> 38" using assms(1) by (simp_all add: opt_ok_def)
  define l :: byte where "l = of_nat (length v + 2)"
  have l: "unat l = length v + 2" and b: "opt_bytes o' = k # l # v"
    unfolding l_def by (rule unat_opt_len [OF k(3)]) (simp add: Opt opt_bytes_def)
  have "tcp_option (k # l # v @ rest) k l mw = Inr (opt_apply (Opt k v) mw)"
    unfolding l_def by (rule tcp_option_apply [OF k(3)])
  then have "tcp_option_loop (k # l # v @ rest) n mw
      = tcp_option_loop (drop (unat l) (k # l # v @ rest)) (n - int (unat l)) (opt_apply (Opt k v) mw)"
    using k(1,2) assms(3) by (subst tcp_option_loop.simps) simp
  then show ?thesis by (simp add: b l flip: Opt)
qed

text \<open>
  On a list of well-formed options, padded by an end-of-options byte or by further readable
  bytes, the loop ends without a fault and applies exactly the MSS options (kind 2, 4 bytes) and the
  window scale options (kind 3, 3 bytes), the last of each kind winning.
\<close>

theorem tcp_options_decode:
  assumes "list_all opt_ok os" "length (concat (map opt_bytes os)) \<le> unat optlen"
    and "\<exists>a rest. tail = a # rest \<and> (a = 0 \<and> rest \<noteq> [] \<or> length (concat (map opt_bytes os)) = unat optlen)"
  shows "tcp_options_in (concat (map opt_bytes os) @ tail) optlen mss
    = Inr (foldl (\<lambda>mw o'. opt_apply o' mw) (mss, 0) os)"
proof -
  have "tcp_option_loop (concat (map opt_bytes os) @ tail) n mw
      = Some (Inr (foldl (\<lambda>mw o'. opt_apply o' mw) mw os))"
    if "int (length (concat (map opt_bytes os))) \<le> n" "list_all opt_ok os"
      "\<exists>a rest. tail = a # rest \<and> (a = 0 \<and> rest \<noteq> [] \<or> int (length (concat (map opt_bytes os))) = n)" for n mw
    using that
  proof (induction os arbitrary: n mw)
    case Nil
    then show ?case by (auto simp: tcp_option_loop.simps [of tail])
  next
    case (Cons o' os)
    have pos: "0 < n" using Cons.prems(1) by (cases o') (auto simp: opt_bytes_def)
    have ne: "opt_bytes o' @ concat (map opt_bytes os) @ tail \<noteq> [1]"
      using Cons.prems(3) by (cases o') (auto simp: opt_bytes_def)
    show ?case
      using tcp_option_loop_step [OF _ ne pos, of mw] Cons.prems
        Cons.IH [of "n - int (length (opt_bytes o'))" "opt_apply o' mw"] by auto
  qed
  then have "tcp_option_loop (concat (map opt_bytes os) @ tail) (int (unat optlen)) (mss, 0)
      = Some (Inr (foldl (\<lambda>mw o'. opt_apply o' mw) (mss, 0) os))"
    by (simp only: of_nat_le_iff of_nat_eq_iff assms)
  then show ?thesis by (simp only: tcp_options_in_def returned_simps)
qed

theorem tcp_options_decode_witness:
  "tcp_options_in ([2, 4, 5, 180] @ [1] @ [3, 3, 7] @ [0]) 8 536 = Inr (1460, 7)"
proof -
  have "tcp_options_in (concat (map opt_bytes [Opt 2 [5, 180], NoOp, Opt 3 [7]]) @ [0]) 8 536
      = Inr (foldl (\<lambda>mw o'. opt_apply o' mw) (536, 0) [Opt 2 [5, 180], NoOp, Opt 3 [7]])"
    by (rule tcp_options_decode) (simp_all add: opt_ok_def opt_bytes_def)
  then show ?thesis by (simp add: opt_bytes_def opt_apply_def ld16_def)
qed

section \<open>An option of length zero\<close>

text \<open>The loop stays where it is.\<close>

lemma tcp_option_loop_stuck:
  assumes "k \<noteq> 0" "k \<noteq> 1" "optlen > 0"
  shows "tcp_option_loop (k # 0 # rest) optlen mw = None"
proof (rule ccontr)
  assume "tcp_option_loop (k # 0 # rest) optlen mw \<noteq> None"
  then obtain r where r: "tcp_option_loop (k # 0 # rest) optlen mw = Some r" by blast
  have "k # 0 # rest = k # 0 # rest \<longrightarrow> \<not> optlen > 0"
    by (rule tcp_option_loop.raw_induct [of "\<lambda>options optlen mw r.
          options = k # 0 # rest \<longrightarrow> \<not> optlen > 0", OF _ r])
      (use assms in \<open>auto simp: tcp_option_def split: if_splits\<close>)
  with assms(3) show False by simp
qed

text \<open>
  A SYN whose options hold, where an option is expected, a kind other than end or no-op with
  length 0 hangs the handler: the loop never ends.
\<close>

theorem tcp_option_length_zero_hangs:
  assumes "k \<noteq> 0" "k \<noteq> 1" "optlen > 0"
  shows "tcp_options_in (k # 0 # rest) optlen mss = Inl Hang"
proof -
  have "0 < int (unat optlen)" using assms(3) by (simp only: of_nat_0_less_iff word_less_nat_alt unsigned_0)
  from tcp_option_loop_stuck [OF assms(1,2) this] show ?thesis
    by (simp only: tcp_options_in_def returned_simps)
qed

theorem tcp_option_length_zero_hangs_witness:
  "tcp_options_in [8, 0, 0, 0] 4 536 = Inl Hang"
  using tcp_option_length_zero_hangs [of 8 4 "[0, 0]" 536] by simp

end
