(* ===== verification/Tcp_Session.thy ===== *)
theory Tcp_Session
  imports Tcp_States Tcp_Queue Tcp_Output
begin

text \<open>
  A TCP session outside its packets (\<open>tcp.c\<close>): opening the socket (\<open>open_tcp_socket\<close>), the
  periodic check with its timeouts (\<open>check_tcp_session\<close>) and the choice of the events to wait for
  (\<open>monitor_tcp_session\<close>); and the invariant every operation on a session keeps.
\<close>

section \<open>The code\<close>

definition TCP_KEEP_TIMEOUT :: int where "TCP_KEEP_TIMEOUT = 300"

definition EPOLL_MIN_CHECK :: int where "EPOLL_MIN_CHECK = 100"

text \<open>\<open>strstr(redirect->raddr, ":") == NULL ? 4 : 6\<close>.\<close>

definition redirect_version :: "bytes \<Rightarrow> int" where
  "redirect_version raddr = (if of_char CHR '':'' \<in> set raddr then 6 else 4)"

definition tcp_target :: "arguments \<Rightarrow> tcp_session \<Rightarrow> int \<times> sockaddr" where
  "tcp_target args cur =
     (let rport = htons (t_dest cur)
      in if rport \<noteq> 80 \<and> rport \<noteq> 443
         then (t_version cur, if t_version cur = 4 then Addr4 (ip4 (t_daddr cur)) (t_dest cur)
                              else Addr6 (t_daddr cur) (t_dest cur))
         else let version = redirect_version (proxyIp args)
              in (version, Named version (proxyIp args) (word_of_int (proxyPort args))))"

text \<open>The socket or -1. The error paths leave the socket open.\<close>

definition open_tcp_socket :: "sys \<Rightarrow> arguments \<Rightarrow> tcp_session \<Rightarrow> trace \<Rightarrow> int \<times> trace" where
  "open_tcp_socket sys args cur tr =
     (let (version, addr) = tcp_target args cur;
          sock = sys_socket sys tr;
          tr = tr @ [ESocket (if version = 4 then PF_INET else PF_INET6) 1 0]
      in if sock < 0 then (-1, tr) else
      let prot = sys_protect sys tr sock; tr = tr @ [EProtect sock]
      in if \<not> prot then (-1, tr) else
      let nonblock = sys_nonblock sys tr sock; tr = tr @ [ENonblock sock]
      in if \<not> nonblock then (-1, tr) else
      let (err, errno) = sys_connect sys tr sock addr; tr = tr @ [EConnect sock addr]
      in if err < 0 \<and> errno \<noteq> EINPROGRESS then (-1, tr) else (sock, tr))"

definition check_tcp_session ::
  "sys \<Rightarrow> tcp_session \<Rightarrow> int \<Rightarrow> int \<Rightarrow> trace \<Rightarrow> int \<times> tcp_session \<times> trace" where
  "check_tcp_session sys s sessions maxsessions tr =
     (let now = sys_time sys tr;
          tr = tr @ [ETime];
          timeout = get_tcp_timeout s sessions maxsessions;
          (s, tr) =
            (if t_state s \<noteq> TCP_CLOSING \<and> t_state s \<noteq> TCP_CLOSE \<and> t_time s + timeout < now
             then if t_state s = TCP_LISTEN then (s\<lparr>t_state := TCP_CLOSING\<rparr>, tr)
                  else write_rst sys s tr
             else (s, tr));
          (s, tr) =
            (if t_state s = TCP_CLOSING
             then let (s, tr) = (if socket s \<ge> 0 then (s\<lparr>socket := -1\<rparr>, tr @ [EClose (socket s)])
                                 else (s, tr))
                  in (s\<lparr>t_time := sys_time sys tr, t_state := TCP_CLOSE\<rparr>, tr @ [ETime])
             else (s, tr));
          s = (if (t_state s = TCP_CLOSING \<or> t_state s = TCP_CLOSE) \<and>
                  (t_sent s \<noteq> 0 \<or> t_received s \<noteq> 0)
               then s\<lparr>t_sent := 0, t_received := 0\<rparr> else s)
      in (if t_state s = TCP_CLOSE \<and> t_time s + TCP_KEEP_TIMEOUT < now then 1 else 0, s, tr))"

text \<open>The head of the queue is the next byte the remote expects, and there is room for it.\<close>

definition head_ready :: "tcp_session \<Rightarrow> u32 \<Rightarrow> bool" where
  "head_ready cur buffer_size =
     (case t_forward cur of [] \<Rightarrow> False
      | q # qs \<Rightarrow> sg_seq q + ucast (sg_sent q) = t_remote_seq cur \<and>
                 ucast (sg_len q) - ucast (sg_sent q) < buffer_size)"

definition monitor_data ::
  "sys \<Rightarrow> tcp_session \<Rightarrow> u32 \<Rightarrow> trace \<Rightarrow> bool \<times> u32 \<times> tcp_session \<times> trace" where
  "monitor_data sys s evs tr =
     (let (recheck, evs, s, tr) =
        (if get_send_window s > 0 then (False, evs OR EPOLLIN, s, tr)
         else
           let ms = sys_ms sys tr; tr = tr @ [EClock]
           in if ms - t_last_keep_alive s > EPOLL_MIN_CHECK
              then let s = s\<lparr>t_last_keep_alive := ms, t_remote_seq := t_remote_seq s - 1\<rparr>;
                       (_, s, tr) = write_ack sys s tr
                   in (True, evs, s\<lparr>t_remote_seq := t_remote_seq s + 1\<rparr>, tr)
              else (True, evs, s, tr))
      in if t_forward s \<noteq> []
         then let (room, tr) = get_receive_buffer sys (socket s) tr
              in if head_ready s (word_of_int room) then (recheck, evs OR EPOLLOUT, s, tr)
                 else (True, evs, s, tr)
         else (recheck, evs, s, tr))"

definition monitor_tcp_session :: "sys \<Rightarrow> tcp_session \<Rightarrow> trace \<Rightarrow> bool \<times> tcp_session \<times> trace" where
  "monitor_tcp_session sys s tr =
     (let (recheck, evs, s, tr) =
        (if t_state s = TCP_LISTEN
         then (False,
               if t_connect_sent s = TCP_CONNECT_SENT \<and> htons (t_dest s) = 443
               then EPOLLERR OR EPOLLIN else EPOLLERR OR EPOLLOUT, s, tr)
         else if t_state s = TCP_ESTABLISHED \<or> t_state s = TCP_CLOSE_WAIT
         then monitor_data sys s EPOLLERR tr
         else (False, EPOLLERR, s, tr))
      in if evs \<noteq> events s
         then let s = s\<lparr>events := evs\<rparr>;
                  failed = sys_epoll_error sys tr (socket s);
                  tr = tr @ [EEpollMod (socket s) evs]
              in (recheck, if failed then s\<lparr>t_state := TCP_CLOSING\<rparr> else s, tr)
         else (recheck, s, tr))"

section \<open>The session invariant\<close>

text \<open>
  The queue is in order, the addresses are there, the state is one of the eight in use, a session
  that still talks to the remote has a socket and one that is closed has none.
\<close>

definition dead_state :: "tcp_state \<Rightarrow> bool" where
  "dead_state s \<longleftrightarrow> s \<in> {TCP_FIN_WAIT1, TCP_LAST_ACK, TCP_CLOSE}"

definition tcp_inv :: "tcp_session \<Rightarrow> bool" where
  "tcp_inv s \<longleftrightarrow> queue_inv (t_forward s) \<and> tcp_addrs_ok s \<and>
     (live_state (t_state s) \<and> 0 \<le> socket s \<or> dead_state (t_state s) \<and> socket s < 0 \<or>
      t_state s = TCP_CLOSING)"

text \<open>What identifies a session: nothing changes it.\<close>

definition tcp_ident :: "tcp_session \<Rightarrow> int \<times> u16 \<times> u16 \<times> bytes \<times> bytes" where
  [simp]: "tcp_ident s = (t_version s, t_source s, t_dest s, t_saddr s, t_daddr s)"

lemma tcp_inv_frame [simp]:
  "tcp_inv (s\<lparr>t_remote_seq := a\<rparr>) = tcp_inv s" "tcp_inv (s\<lparr>t_local_seq := a\<rparr>) = tcp_inv s"
  "tcp_inv (s\<lparr>t_time := t\<rparr>) = tcp_inv s" "tcp_inv (s\<lparr>t_last_keep_alive := t\<rparr>) = tcp_inv s"
  "tcp_inv (s\<lparr>t_sent := w\<rparr>) = tcp_inv s" "tcp_inv (s\<lparr>t_received := w\<rparr>) = tcp_inv s"
  "tcp_inv (s\<lparr>events := e\<rparr>) = tcp_inv s" "tcp_inv (s\<lparr>t_acked := a\<rparr>) = tcp_inv s"
  "tcp_inv (s\<lparr>t_recv_window := a\<rparr>) = tcp_inv s" "tcp_inv (s\<lparr>t_send_window := a\<rparr>) = tcp_inv s"
  "tcp_inv (s\<lparr>t_hostname := h\<rparr>) = tcp_inv s" "tcp_inv (s\<lparr>t_connect_sent := c\<rparr>) = tcp_inv s"
  by (simp_all add: tcp_inv_def tcp_addrs_ok_def)

lemma tcp_inv_closing [simp, intro]: "tcp_inv s \<Longrightarrow> tcp_inv (s\<lparr>t_state := TCP_CLOSING\<rparr>)"
  by (simp add: tcp_inv_def tcp_addrs_ok_def)

lemma tcp_inv_write:
  "tcp_inv cur \<Longrightarrow> w sys cur tr = (r, cur', tr') \<Longrightarrow> tcp_writer w pkt \<Longrightarrow> tcp_inv cur'"
  by (drule tcp_writer.frame) (auto simp: tcp_inv_def tcp_addrs_ok_def)

lemma write_rst_frame:
  "write_rst sys cur tr = (cur', tr') \<Longrightarrow> tcp_inv cur \<Longrightarrow>
   tcp_inv cur' \<and> (t_state cur' = t_state cur \<and> t_state cur = TCP_CLOSE \<or>
      t_state cur \<noteq> TCP_CLOSE \<and> t_state cur' = TCP_CLOSING)
   \<and> tcp_ident cur' = tcp_ident cur"
  by (auto simp: write_rst_eq Let_def split: if_splits)


text \<open>What every operation on a session does: it keeps the invariant and follows the life cycle.\<close>

definition tcp_keeps :: "bool \<Rightarrow> tcp_session \<Rightarrow> tcp_session \<Rightarrow> bool" where
  "tcp_keeps https s s' \<longleftrightarrow> tcp_inv s' \<and> tcp_ident s' = tcp_ident s \<and> tcp_path https (t_state s) (t_state s')"

lemma tcp_keeps_refl [simp, intro]: "tcp_inv s \<Longrightarrow> tcp_keeps https s s"
  by (simp add: tcp_keeps_def)

lemma tcp_keeps_trans [trans]: "tcp_keeps h a b \<Longrightarrow> tcp_keeps h b c \<Longrightarrow> tcp_keeps h a c"
  by (auto simp: tcp_keeps_def)

lemma tcp_keeps_abort:
  "tcp_inv s' \<Longrightarrow> tcp_ident s' = tcp_ident s \<Longrightarrow> t_state s' = t_state s \<or> t_state s' = TCP_CLOSING \<Longrightarrow>
   t_state s \<noteq> TCP_CLOSE \<Longrightarrow> tcp_keeps h s s' \<and> t_state s' \<noteq> TCP_CLOSE"
  by (auto simp: tcp_keeps_def intro: tcp_path_abort)

lemma tcp_keeps_rst:
  "write_rst sys cur tr = (cur', tr') \<Longrightarrow> tcp_inv cur \<Longrightarrow> t_state cur \<noteq> TCP_CLOSE \<Longrightarrow>
   tcp_keeps h cur cur' \<and> t_state cur' = TCP_CLOSING"
  by (auto dest!: write_rst_frame simp: tcp_keeps_def intro: tcp_path_abort)

section \<open>check_tcp_session\<close>

text \<open>The three steps of the check: the timeout, the close, the verdict.\<close>

definition tcp_timed_out :: "sys \<Rightarrow> tcp_session \<Rightarrow> int \<Rightarrow> int \<Rightarrow> trace \<Rightarrow> tcp_session \<times> trace" where
  "tcp_timed_out sys s n m tr =
     (if t_state s \<noteq> TCP_CLOSING \<and> t_state s \<noteq> TCP_CLOSE \<and>
         t_time s + get_tcp_timeout s n m < sys_time sys tr
      then if t_state s = TCP_LISTEN then (s\<lparr>t_state := TCP_CLOSING\<rparr>, tr @ [ETime])
           else write_rst sys s (tr @ [ETime])
      else (s, tr @ [ETime]))"

definition tcp_closed :: "sys \<Rightarrow> tcp_session \<Rightarrow> trace \<Rightarrow> tcp_session \<times> trace" where
  "tcp_closed sys s tr =
     (if t_state s = TCP_CLOSING
      then if socket s \<ge> 0
        then (s\<lparr>socket := -1, t_time := sys_time sys (tr @ [EClose (socket s)]), t_state := TCP_CLOSE\<rparr>,
              tr @ [EClose (socket s), ETime])
        else (s\<lparr>t_time := sys_time sys tr, t_state := TCP_CLOSE\<rparr>, tr @ [ETime])
      else (s, tr))"

definition tcp_reset_counters :: "tcp_session \<Rightarrow> tcp_session" where
  "tcp_reset_counters s =
     (if (t_state s = TCP_CLOSING \<or> t_state s = TCP_CLOSE) \<and> (t_sent s \<noteq> 0 \<or> t_received s \<noteq> 0)
      then s\<lparr>t_sent := 0, t_received := 0\<rparr> else s)"

lemma check_tcp_session_eq:
  "check_tcp_session sys s n m tr =
     (let (s1, tr1) = tcp_timed_out sys s n m tr; (s2, tr2) = tcp_closed sys s1 tr1;
          s3 = tcp_reset_counters s2
      in (if t_state s3 = TCP_CLOSE \<and> t_time s3 + TCP_KEEP_TIMEOUT < sys_time sys tr then 1 else 0,
          s3, tr2))"
  unfolding check_tcp_session_def tcp_timed_out_def tcp_closed_def tcp_reset_counters_def
  by (simp add: Let_def cong: if_cong split: prod.splits)

lemma tcp_timed_out_inv:
  "tcp_timed_out sys s n m tr = (s', tr') \<Longrightarrow> tcp_inv s \<Longrightarrow>
   tcp_inv s' \<and> tcp_ident s' = tcp_ident s \<and> (t_state s' = TCP_CLOSING \<and> t_state s \<noteq> TCP_CLOSE \<or> s' = s)"
  by (auto simp: tcp_timed_out_def dest: write_rst_frame split: if_splits)

lemma tcp_closed_inv:
  "tcp_closed sys s tr = (s', tr') \<Longrightarrow> tcp_inv s \<Longrightarrow>
   tcp_inv s' \<and> tcp_ident s' = tcp_ident s \<and>
   (t_state s' = TCP_CLOSE \<and> t_state s = TCP_CLOSING \<or> s' = s \<and> t_state s \<noteq> TCP_CLOSING)"
  by (auto simp: tcp_closed_def tcp_inv_def tcp_addrs_ok_def dead_state_def split: if_splits)

lemma tcp_reset_counters_frame [simp]:
  "tcp_inv (tcp_reset_counters s) = tcp_inv s" "t_state (tcp_reset_counters s) = t_state s"
  "tcp_ident (tcp_reset_counters s) = tcp_ident s" "t_time (tcp_reset_counters s) = t_time s"
  "socket (tcp_reset_counters s) = socket s"
  by (simp_all add: tcp_reset_counters_def)

lemma tcp_inv_close: "tcp_inv s \<Longrightarrow> t_state s = TCP_CLOSE \<Longrightarrow> socket s < 0"
  by (auto simp: tcp_inv_def live_state_def)

lemma check_tcp_session_keeps:
  assumes "tcp_inv s" "check_tcp_session sys s n m tr = (r, s', tr')"
  shows "tcp_keeps h s s' \<and> t_state s' \<noteq> TCP_CLOSING"
proof -
  obtain s1 tr1 s2 where t: "tcp_timed_out sys s n m tr = (s1, tr1)"
    and c: "tcp_closed sys s1 tr1 = (s2, tr')" and s': "s' = tcp_reset_counters s2"
    using assms(2) by (auto simp: check_tcp_session_eq Let_def split: prod.splits)
  note t = tcp_timed_out_inv [OF t assms(1)]
  then have c: "tcp_inv s2 \<and> tcp_ident s2 = tcp_ident s1" "t_state s2 = TCP_CLOSE \<and> t_state s1 = TCP_CLOSING \<or>
      s2 = s1 \<and> t_state s1 \<noteq> TCP_CLOSING"
    using tcp_closed_inv [OF c] by auto
  have "tcp_keeps h s s1"
    using t assms(1) unfolding tcp_keeps_def by (auto intro: tcp_path_abort)
  moreover have "tcp_keeps h s1 s2"
    using c unfolding tcp_keeps_def by (auto intro: tcp_paths)
  moreover have "tcp_keeps h s2 s'"
    using c by (simp add: tcp_keeps_def s' tcp_reset_counters_def)
  ultimately have "tcp_keeps h s s'" by (blast intro: tcp_keeps_trans)
  then show ?thesis using c by (auto simp: s')
qed

text \<open>
  The periodic check of a session keeps the session invariant, follows the life cycle, and
  leaves no session in \<open>CLOSING\<close>: its socket has been closed (so a closed session never holds one).
\<close>

theorem check_tcp_session_inv:
  assumes "tcp_inv s" "check_tcp_session sys s n m tr = (r, s', tr')"
  shows "tcp_inv s' \<and> tcp_ident s' = tcp_ident s \<and> t_state s \<le> t_state s'
    \<and> t_state s' \<noteq> TCP_CLOSING \<and> (t_state s' = TCP_CLOSE \<longrightarrow> socket s' < 0)"
  using check_tcp_session_keeps [OF assms] tcp_path_forward tcp_inv_close
  unfolding tcp_keeps_def by blast

definition sample_session :: "tcp_state \<Rightarrow> tcp_session" where
  "sample_session st = zero_tcp_session\<lparr>t_version := 4, t_state := st, socket := 7\<rparr>"

lemma sample_session_simps [simp]:
  "t_state (sample_session st) = st" "t_time (sample_session st) = 0"
  "socket (sample_session st) = 7" "t_forward (sample_session st) = []"
  "t_dest (sample_session st) = 0" "t_version (sample_session st) = 4"
  by (simp_all add: sample_session_def zero_tcp_session_def)

lemma sample_session_inv: "live_state st \<Longrightarrow> tcp_inv (sample_session st)"
  by (simp add: tcp_inv_def sample_session_def zero_tcp_session_def tcp_addrs_ok_def addr_ok_def)

theorem check_tcp_session_inv_witness:
  "let s' = fst (snd (check_tcp_session calm_sys (sample_session TCP_ESTABLISHED) 1 10 (replicate 9 ETime)))
   in tcp_inv s' \<and> t_state s' \<noteq> TCP_CLOSING"
proof -
  obtain r s' tr' where c: "check_tcp_session calm_sys (sample_session TCP_ESTABLISHED) 1 10
      (replicate 9 ETime) = (r, s', tr')" by (rule prod_cases3)
  show ?thesis
    using check_tcp_session_inv [OF sample_session_inv c] by (simp add: Let_def c live_state_def)
qed

text \<open>
  A session the client has not used for longer than its base timeout (30 s, one hour when
  established) is closed by the next check whatever the load, and once closed it is handed back
  for removal by every check later than 300 s after that.
\<close>

theorem idle_tcp_session_is_removed:
  assumes "0 \<le> n" "n \<le> m" "0 < m" "t_state s \<noteq> TCP_CLOSE"
    and "t_time s + (if t_state s = TCP_ESTABLISHED then 3600 else 30) < sys_time sys tr"
    and "check_tcp_session sys s n m tr = (r, s', tr')"
  shows "t_state s' = TCP_CLOSE \<and>
    (t_time s' + 300 < sys_time sys tr2 \<longrightarrow> fst (check_tcp_session sys s' n2 m2 tr2) = 1)"
proof -
  obtain s1 tr1 s2 where t: "tcp_timed_out sys s n m tr = (s1, tr1)"
    and c: "tcp_closed sys s1 tr1 = (s2, tr')" and s': "s' = tcp_reset_counters s2"
    using assms(6) by (auto simp: check_tcp_session_eq Let_def split: prod.splits)
  have "t_time s + get_tcp_timeout s n m < sys_time sys tr"
    by (rule tcp_to.idle_expires) (use assms in simp_all)
  then have "t_state s1 = TCP_CLOSING"
    using t assms(4) by (auto simp: tcp_timed_out_def write_rst_eq Let_def split: if_splits)
  then have "t_state s' = TCP_CLOSE"
    using c by (auto simp: tcp_closed_def s' split: if_splits)
  then show ?thesis
    by (simp add: check_tcp_session_eq tcp_timed_out_def tcp_closed_def TCP_KEEP_TIMEOUT_def)
qed

theorem idle_tcp_session_is_removed_witness:
  "let s' = fst (snd (check_tcp_session calm_sys (sample_session TCP_ESTABLISHED) 1 10 (replicate 9 ETime)))
   in t_state s' = TCP_CLOSE"
proof -
  obtain r s' tr' where c: "check_tcp_session calm_sys (sample_session TCP_ESTABLISHED) 1 10
      (replicate 9 ETime) = (r, s', tr')" by (rule prod_cases3)
  show ?thesis
    using idle_tcp_session_is_removed [OF _ _ _ _ _ c]
    by (simp add: Let_def c)
qed


section \<open>open_tcp_socket\<close>

text \<open>
  A socket that is handed out was created, protected from the VPN, made non-blocking and only
  then connected, to the proxy for the ports 80 and 443 and to the packet's destination for all
  others. A failure is -1, and nothing closes the socket that was created: no step of
  \<open>open_tcp_socket\<close> is a \<open>close\<close>.
\<close>

theorem open_tcp_socket_protects:
  "let (fd, tr') = open_tcp_socket sys args cur tr; (version, addr) = tcp_target args cur;
       created = [ESocket (if version = 4 then PF_INET else PF_INET6) 1 0];
       calls = [EProtect fd, ENonblock fd, EConnect fd addr]
   in (if fd < 0 then fd = -1 \<and> (\<exists>evs. tr' = tr @ created @ evs \<and> (\<forall>e \<in> set evs. \<forall>k. e \<noteq> EClose k))
       else tr' = tr @ created @ calls \<and> sys_protect sys (tr @ created) fd
          \<and> (htons (t_dest cur) \<in> {80, 443} \<longleftrightarrow> (\<exists>v. addr = Named v (proxyIp args) (word_of_int (proxyPort args)))))"
  by (auto simp: open_tcp_socket_def tcp_target_def Let_def split: prod.splits if_splits)

theorem open_tcp_socket_protects_witness:
  "\<exists>fd. open_tcp_socket calm_sys sample_args (sample_session TCP_LISTEN) [] =
     (fd, [ESocket PF_INET 1 0, EProtect fd, ENonblock fd, EConnect fd (Addr4 [0, 0, 0, 0] 0)])"
proof -
  obtain fd tr' where r: "open_tcp_socket calm_sys sample_args (sample_session TCP_LISTEN) [] = (fd, tr')"
    by fastforce
  have t: "tcp_target sample_args (sample_session TCP_LISTEN) = (4, Addr4 [0, 0, 0, 0] 0)"
  proof -
    have "htons 0 = (0 :: u16)" by (simp add: htons_def ntohs_def)
    moreover have "take 4 (replicate 16 (0 :: byte)) = [0, 0, 0, 0]"
      by (simp add: numeral_eq_Suc)
    ultimately show ?thesis
      by (simp add: tcp_target_def sample_session_def zero_tcp_session_def ip4_def)
  qed
  have "fd = 3" using r by (simp add: open_tcp_socket_def Let_def t)
  then show ?thesis
    using open_tcp_socket_protects [of calm_sys sample_args "sample_session TCP_LISTEN" "[]"] r
    by (simp add: t)
qed

section \<open>monitor_tcp_session\<close>

lemma monitor_data_frame:
  assumes "monitor_data sys s evs tr = (r, evs', s', tr')"
  shows "\<exists>st ms. s' = s\<lparr>t_state := st, t_last_keep_alive := ms\<rparr> \<and> (st = t_state s \<or> st = TCP_CLOSING)"
proof -
  obtain e ms0 s1 tr1 tr2 where w: "write_ack sys (s\<lparr>t_last_keep_alive := sys_ms sys tr,
      t_remote_seq := t_remote_seq s - 1\<rparr>) (tr @ [EClock]) = (e, s1, tr1)"
    by (rule prod_cases3)
  obtain st where st: "s1 = s\<lparr>t_last_keep_alive := sys_ms sys tr, t_remote_seq := t_remote_seq s - 1,
      t_state := st\<rparr>" "st = t_state s \<or> st = TCP_CLOSING"
    using ack.frame [OF w] by auto
  have id: "s = s\<lparr>t_state := t_state s, t_last_keep_alive := t_last_keep_alive s\<rparr>" by simp
  show ?thesis
  proof (cases "get_send_window s > 0 \<or> \<not> sys_ms sys tr - t_last_keep_alive s > EPOLL_MIN_CHECK")
    case True
    then have "s' = s" using assms
      by (auto simp: monitor_data_def Let_def split: if_splits prod.splits)
    with id show ?thesis by blast
  next
    case False
    then have "s' = s\<lparr>t_last_keep_alive := sys_ms sys tr, t_state := st\<rparr>" using assms
      by (auto simp: monitor_data_def Let_def w st(1) split: if_splits prod.splits)
    then show ?thesis using st(2)
      by (intro exI [of _ st] exI [of _ "sys_ms sys tr"]) (cases s, simp)
  qed
qed

text \<open>The last step of the monitor: register the events if they changed.\<close>

definition monitor_commit :: "sys \<Rightarrow> bool \<times> u32 \<times> tcp_session \<times> trace \<Rightarrow> bool \<times> tcp_session \<times> trace" where
  "monitor_commit sys m =
     (let (recheck, evs, s, tr) = m
      in if evs \<noteq> events s
         then (recheck, if sys_epoll_error sys tr (socket s)
                        then s\<lparr>events := evs, t_state := TCP_CLOSING\<rparr> else s\<lparr>events := evs\<rparr>,
               tr @ [EEpollMod (socket s) evs])
         else (recheck, s, tr))"

lemma monitor_commit_frame:
  "monitor_commit sys (r, evs, s, tr) = (r', s', tr') \<Longrightarrow>
   s' = s\<lparr>events := evs\<rparr> \<or> s' = s\<lparr>events := evs, t_state := TCP_CLOSING\<rparr>"
  by (auto simp: monitor_commit_def Let_def split: if_splits)

lemma monitor_tcp_session_eq:
  "monitor_tcp_session sys s tr = monitor_commit sys
     (if t_state s = TCP_LISTEN
      then (False, if t_connect_sent s = TCP_CONNECT_SENT \<and> htons (t_dest s) = 443
                   then EPOLLERR OR EPOLLIN else EPOLLERR OR EPOLLOUT, s, tr)
      else if t_state s = TCP_ESTABLISHED \<or> t_state s = TCP_CLOSE_WAIT
      then monitor_data sys s EPOLLERR tr else (False, EPOLLERR, s, tr))"
  unfolding monitor_tcp_session_def monitor_commit_def
  by (simp add: Let_def cong: if_cong split: prod.splits)

lemma monitor_tcp_session_keeps:
  assumes "tcp_inv s" "0 \<le> socket s" "monitor_tcp_session sys s tr = (r, s', tr')"
  shows "tcp_keeps h s s'
    \<and> t_remote_seq s' = t_remote_seq s \<and> t_local_seq s' = t_local_seq s
    \<and> t_forward s' = t_forward s \<and> socket s' = socket s"
proof -
  have alive: "t_state s \<noteq> TCP_CLOSE" using assms(1,2) tcp_inv_close by force
  obtain r1 evs1 s1 tr1 where m: "monitor_data sys s EPOLLERR tr = (r1, evs1, s1, tr1)"
    by (metis prod_cases4)
  obtain st ms where s1: "s1 = s\<lparr>t_state := st, t_last_keep_alive := ms\<rparr>"
    "st = t_state s \<or> st = TCP_CLOSING"
    using monitor_data_frame [OF m] by blast
  have "\<exists>r2 evs2 s2 tr2. (s2 = s \<or> s2 = s1) \<and> monitor_commit sys (r2, evs2, s2, tr2) = (r, s', tr')"
    using assms(3) m by (auto simp: monitor_tcp_session_eq split: if_splits)
  then obtain evs2 s2 where s2: "s2 = s \<or> s2 = s1"
    and s': "s' = s2\<lparr>events := evs2\<rparr> \<or> s' = s2\<lparr>events := evs2, t_state := TCP_CLOSING\<rparr>"
    by (metis monitor_commit_frame)
  have f: "tcp_inv s2 \<and> (t_state s2 = t_state s \<or> t_state s2 = TCP_CLOSING) \<and>
      t_remote_seq s2 = t_remote_seq s \<and> t_local_seq s2 = t_local_seq s \<and>
      t_forward s2 = t_forward s \<and> socket s2 = socket s \<and> tcp_ident s2 = tcp_ident s"
    using s2 s1 assms(1) by (auto simp: tcp_inv_def tcp_addrs_ok_def)
  then show ?thesis
    using s' alive by (auto intro: tcp_path_abort simp: tcp_keeps_def tcp_inv_def tcp_addrs_ok_def)
qed

text \<open>
  Choosing the events of a session with a socket keeps its invariant and its life cycle and
  does not move its sequence numbers: the decrement of \<open>remote_seq\<close> around the keep alive is
  undone, whether or not the packet could be written.
\<close>

theorem monitor_tcp_session_inv:
  assumes "tcp_inv s" "0 \<le> socket s" "monitor_tcp_session sys s tr = (r, s', tr')"
  shows "tcp_inv s' \<and> tcp_ident s' = tcp_ident s \<and> t_state s \<le> t_state s'
    \<and> t_remote_seq s' = t_remote_seq s \<and> t_local_seq s' = t_local_seq s
    \<and> t_forward s' = t_forward s \<and> socket s' = socket s"
  using monitor_tcp_session_keeps [OF assms] tcp_path_forward unfolding tcp_keeps_def by blast

theorem monitor_tcp_session_inv_witness:
  "let (r, s', tr') = monitor_tcp_session calm_sys (sample_session TCP_ESTABLISHED) [] in
   tcp_inv s' \<and> socket s' = 7"
proof -
  obtain r s' tr' where m: "monitor_tcp_session calm_sys (sample_session TCP_ESTABLISHED) [] = (r, s', tr')"
    by (rule prod_cases3)
  show ?thesis
    using monitor_tcp_session_inv [OF _ _ m] sample_session_inv [of TCP_ESTABLISHED]
    by (simp add: m live_state_def)
qed

end
