(* ===== verification/Tcp_Socket.thy ===== *)
theory Tcp_Socket
  imports Tcp_Session Http
begin

text \<open>
  An event on the socket of a TCP session (\<open>check_tcp_socket\<close> of \<open>tcp.c\<close>): the connect and the
  answer of the proxy to CONNECT, the forwarding of the queue, the acknowledgement of what was
  forwarded, and the data that came back.
\<close>

section \<open>Connecting\<close>

text \<open>\<open>while (recv(s->socket, buffer, sizeof(buffer), 0) > 0) {}\<close>\<close>

partial_function (option) drain :: "sys \<Rightarrow> int \<Rightarrow> trace \<Rightarrow> trace option" where
  "drain sys fd tr =
     (case sys_recv sys tr fd 512 of
        Inl _ \<Rightarrow> Some (tr @ [ERecv fd 512])
      | Inr bs \<Rightarrow> if bs = [] then Some (tr @ [ERecv fd 512]) else drain sys fd (tr @ [ERecv fd 512]))"

definition connect_ok :: "bytes \<Rightarrow> bool" where
  "connect_ok reply \<longleftrightarrow> until_nul reply = cstr ''HTTP/1.0 200'' \<or> until_nul reply = cstr ''HTTP/1.1 200''"

definition tcp_connect_reply :: "sys \<Rightarrow> tcp_session \<Rightarrow> trace \<Rightarrow> (tcp_session \<times> trace) result" where
  "tcp_connect_reply sys s tr =
     (let r = sys_recv sys tr (socket s) 12; tr = tr @ [ERecv (socket s) 12]
      in case r of
        Inl _ \<Rightarrow> Inr (write_rst sys s tr)
      | Inr buffer \<Rightarrow>
          if t_connect_sent s = TCP_CONNECT_SENT
          then if connect_ok buffer
            then (case drain sys (socket s) tr of
                None \<Rightarrow> Inl Hang
              | Some tr \<Rightarrow> Inr (s\<lparr>t_connect_sent := TCP_CONNECT_ESTABLISHED, t_state := TCP_SYN_RECV\<rparr>, tr))
            else Inr (write_rst sys s tr)
          else Inr (s, tr))"

definition tcp_connected :: "sys \<Rightarrow> tcp_session \<Rightarrow> trace \<Rightarrow> tcp_session \<times> trace" where
  "tcp_connected sys s tr =
     (let s = s\<lparr>t_remote_seq := t_remote_seq s + 1\<rparr>;
          (r, s, tr) = write_syn_ack sys s tr
      in if r \<ge> 0
         then (s\<lparr>t_time := sys_time sys tr, t_local_seq := t_local_seq s + 1, t_state := TCP_SYN_RECV\<rparr>,
               tr @ [ETime])
         else (s, tr))"

section \<open>Forwarding the queue\<close>

text \<open>\<open>if (sent > len) sent = len;\<close> compares an \<open>ssize_t\<close> with a \<open>size_t\<close>, as unsigned.\<close>

definition as_size :: "int \<Rightarrow> nat" where
  "as_size n = nat (n mod 2 ^ 64)"

definition as_ssize :: "nat \<Rightarrow> int" where
  "as_ssize n = (if n < 2 ^ 63 then int n else int n - 2 ^ 64)"

definition clamp_sent :: "int \<Rightarrow> nat \<Rightarrow> int" where
  "clamp_sent sent len = (if as_size sent > len then as_ssize len else sent)"

text \<open>One \<open>send\<close> of what is left of the head of the queue.\<close>

definition forward_send :: "sys \<Rightarrow> tcp_session \<Rightarrow> trace \<Rightarrow> (int \<times> errno \<times> trace) result" where
  "forward_send sys cur tr =
     (let q = hd (t_forward cur);
          data = drop (unat (sg_sent q)) (sg_data q);
          len = size_sub (unat (sg_len q)) (unat (sg_sent q))
      in rbind (if htons (t_dest cur) = 80 then patch_http_url data len else Inr None) (\<lambda>new_data.
         rbind (case new_data of None \<Rightarrow> rd_bytes data 0 len | Some d \<Rightarrow> Inr d) (\<lambda>buf.
         let (sent, errno) = sys_send sys tr (socket cur) buf
         in Inr (clamp_sent sent len, errno, tr @ [ESend (socket cur) buf (\<not> sg_psh q)]))))"

definition forward_advance :: "tcp_session \<Rightarrow> int \<Rightarrow> bool \<times> tcp_session" where
  "forward_advance cur sent =
     (let q = hd (t_forward cur);
          q' = q\<lparr>sg_sent := sg_sent q + word_of_int sent\<rparr>;
          cur = cur\<lparr>t_sent := t_sent cur + word_of_int sent,
                   t_remote_seq := sg_seq q' + ucast (sg_sent q')\<rparr>
      in if sg_len q' = sg_sent q'
         then (True, cur\<lparr>t_forward := tl (t_forward cur)\<rparr>)
         else (False, cur\<lparr>t_forward := q' # tl (t_forward cur)\<rparr>))"

lemma forward_advance_shrinks:
  "head_ready cur b \<Longrightarrow> forward_advance cur n = (True, cur') \<Longrightarrow>
   length (t_forward cur') < length (t_forward cur)"
  by (auto simp: forward_advance_def head_ready_def Let_def split: list.splits if_splits)

function forward_loop ::
  "sys \<Rightarrow> tcp_session \<Rightarrow> u32 \<Rightarrow> bool \<Rightarrow> trace \<Rightarrow> (bool \<times> tcp_session \<times> trace) result" where
  "forward_loop sys cur buffer_size fwd tr =
     (if head_ready cur buffer_size then
        rbind (forward_send sys cur tr) (\<lambda>(sent, errno, tr).
          if sent < 0
          then if errno = EINTR \<or> errno = EAGAIN then Inr (fwd, cur, tr)
               else let (cur, tr) = write_rst sys cur tr in Inr (fwd, cur, tr)
          else let (finished, cur') = forward_advance cur sent
               in if finished then forward_loop sys cur' (buffer_size - word_of_int sent) True tr
                  else Inr (True, cur', tr))
      else Inr (fwd, cur, tr))"
  by pat_completeness auto
termination
  by (relation "measure (\<lambda>(sys, cur, b, fwd, tr). length (t_forward cur))")
    (auto dest: forward_advance_shrinks [OF _ sym])

declare forward_loop.simps [simp del]

definition tcp_forward :: "sys \<Rightarrow> u32 \<Rightarrow> tcp_session \<Rightarrow> trace \<Rightarrow> (bool \<times> tcp_session \<times> trace) result" where
  "tcp_forward sys evs cur tr =
     (if has_event evs EPOLLOUT
      then let (room, tr) = get_receive_buffer sys (socket cur) tr
           in forward_loop sys cur (word_of_int room) False tr
      else Inr (False, cur, tr))"

section \<open>Acknowledging and receiving\<close>

definition tcp_window_ack :: "sys \<Rightarrow> bool \<Rightarrow> tcp_session \<Rightarrow> trace \<Rightarrow> tcp_session \<times> trace" where
  "tcp_window_ack sys fwd cur tr =
     (let (window, tr) = get_receive_window sys cur tr;
          prev = t_recv_window cur;
          cur = cur\<lparr>t_recv_window := window\<rparr>
      in if fwd \<or> prev = 0 \<and> window > 0
         then let cur = (if fwd \<and> t_forward cur = [] \<and> t_state cur = TCP_CLOSE_WAIT
                         then cur\<lparr>t_remote_seq := t_remote_seq cur + 1\<rparr> else cur);
                  (r, cur, tr) = write_ack sys cur tr
              in if r \<ge> 0 then (cur\<lparr>t_time := sys_time sys tr\<rparr>, tr @ [ETime]) else (cur, tr)
         else (cur, tr))"

definition tcp_remote_eof :: "sys \<Rightarrow> tcp_session \<Rightarrow> trace \<Rightarrow> tcp_session \<times> trace" where
  "tcp_remote_eof sys cur tr =
     (let (cur, tr) =
        (if t_forward cur = []
         then let (r, cur, tr) = write_fin_ack sys cur tr;
                  cur = (if r \<ge> 0 then cur\<lparr>t_local_seq := t_local_seq cur + 1\<rparr> else cur)
              in (if t_state cur = TCP_ESTABLISHED then cur\<lparr>t_state := TCP_FIN_WAIT1\<rparr>
                  else if t_state cur = TCP_CLOSE_WAIT then cur\<lparr>t_state := TCP_LAST_ACK\<rparr>
                  else cur, tr)
         else write_rst sys cur tr)
      in (cur\<lparr>socket := -1\<rparr>, tr @ [EClose (socket cur)]))"

definition tcp_receive :: "sys \<Rightarrow> u32 \<Rightarrow> tcp_session \<Rightarrow> trace \<Rightarrow> tcp_session \<times> trace" where
  "tcp_receive sys evs cur tr =
     (let send_window = get_send_window cur
      in if has_event evs EPOLLIN \<and> send_window > 0
         then
           let cur = cur\<lparr>t_time := sys_time sys tr\<rparr>; tr = tr @ [ETime];
               buffer_size = (if send_window > ucast (t_mss cur) then ucast (t_mss cur) else send_window);
               bytes = sys_recv sys tr (socket cur) (unat buffer_size);
               tr = tr @ [ERecv (socket cur) (unat buffer_size)]
           in case bytes of
                Inl errno \<Rightarrow> if errno \<noteq> EINTR \<and> errno \<noteq> EAGAIN then write_rst sys cur tr else (cur, tr)
              | Inr buffer \<Rightarrow>
                  if buffer = [] then tcp_remote_eof sys cur tr
                  else let cur = cur\<lparr>t_received := t_received cur + of_nat (length buffer)\<rparr>;
                           (r, cur, tr) = write_data sys cur buffer tr
                       in (if r \<ge> 0 then cur\<lparr>t_local_seq := t_local_seq cur + of_nat (length buffer)\<rparr>
                           else cur, tr)
         else (cur, tr))"

definition tcp_data_event :: "sys \<Rightarrow> u32 \<Rightarrow> tcp_session \<Rightarrow> trace \<Rightarrow> (tcp_session \<times> trace) result" where
  "tcp_data_event sys evs s tr =
     rbind (tcp_forward sys evs s tr) (\<lambda>(fwd, s, tr).
       let (s, tr) = tcp_window_ack sys fwd s tr
       in Inr (if t_state s = TCP_ESTABLISHED \<or> t_state s = TCP_CLOSE_WAIT
               then tcp_receive sys evs s tr else (s, tr)))"

definition check_tcp_socket :: "sys \<Rightarrow> u32 \<Rightarrow> tcp_session \<Rightarrow> trace \<Rightarrow> (tcp_session \<times> trace) result" where
  "check_tcp_socket sys evs s tr =
     (if has_event evs EPOLLERR
      then Inr (write_rst sys (s\<lparr>t_time := sys_time sys tr\<rparr>) (tr @ [ETime]))
      else if t_state s = TCP_LISTEN
      then if has_event evs EPOLLIN then tcp_connect_reply sys s tr
           else Inr (tcp_connected sys s tr)
      else tcp_data_event sys evs s tr)"


section \<open>Forwarding moves the queue to the socket\<close>

text \<open>
  The abstraction: the queue is the stream of bytes still to send, and a run of \<open>send\<close> calls is
  the bytes the kernel took.
\<close>

definition pending :: "segment \<Rightarrow> bytes" where
  "pending q = drop (unat (sg_sent q)) (take (unat (sg_len q)) (sg_data q))"

definition stream :: "segment list \<Rightarrow> bytes" where
  "stream q = concat (map pending q)"

fun accepted :: "sys \<Rightarrow> trace \<Rightarrow> event list \<Rightarrow> bytes" where
  "accepted sys tr [] = []"
| "accepted sys tr (ESend fd b m # evs) =
     take (nat (fst (sys_send sys tr fd b))) b @ accepted sys (tr @ [ESend fd b m]) evs"
| "accepted sys tr (e # evs) = accepted sys (tr @ [e]) evs"

lemma stream_simps [simp]: "stream [] = []" "stream (q # qs) = pending q @ stream qs"
  by (simp_all add: stream_def)

text \<open>The kernel takes a part of what it is given.\<close>

definition send_ok :: "sys \<Rightarrow> bool" where
  "send_ok sys \<longleftrightarrow> (\<forall>tr fd b. 0 \<le> fst (sys_send sys tr fd b) \<and> fst (sys_send sys tr fd b) \<le> int (length b))"

lemma length_pending: "seg_ok q \<Longrightarrow> length (pending q) = unat (sg_len q) - unat (sg_sent q)"
  by (simp add: pending_def seg_ok_def)

lemma length_pending_less: "seg_ok q \<Longrightarrow> length (pending q) < 65536"
  using unat_u16 [of "sg_len q"] by (simp add: length_pending)

lemma forward_send_eq:
  assumes "t_forward cur = q # qs" "seg_ok q" "t_dest cur \<noteq> htons 80"
  shows "forward_send sys cur tr =
    (let r = sys_send sys tr (socket cur) (pending q)
     in Inr (clamp_sent (fst r) (length (pending q)), snd r,
             tr @ [ESend (socket cur) (pending q) (\<not> sg_psh q)]))"
proof -
  have "htons (t_dest cur) \<noteq> 80"
    using assms(3) by (metis htons_def ntohs_htons)
  moreover have "size_sub (unat (sg_len q)) (unat (sg_sent q)) = length (pending q)"
    using assms(2) by (simp add: length_pending seg_ok_def word_le_nat_alt)
  moreover have "rd_bytes (drop (unat (sg_sent q)) (sg_data q)) 0 (length (pending q)) = Inr (pending q)"
  proof -
    have "pending q = take (length (pending q)) (drop (unat (sg_sent q)) (sg_data q))"
      using assms(2) by (simp add: length_pending) (simp add: pending_def drop_take)
    moreover have "length (pending q) \<le> length (drop (unat (sg_sent q)) (sg_data q))"
      using assms(2) by (auto simp: length_pending seg_ok_def intro: diff_le_mono)
    ultimately show ?thesis by (simp add: rd_bytes_eq_Inr)
  qed
  ultimately show ?thesis
    using assms(1) by (simp add: forward_send_def Let_def split: prod.split)
qed

lemma clamp_sent_ok: "0 \<le> n \<Longrightarrow> n \<le> int len \<Longrightarrow> len < 65536 \<Longrightarrow> clamp_sent n len = n"
  by (auto simp: clamp_sent_def as_size_def)

text \<open>An error of \<open>send\<close> becomes "all of it was sent".\<close>

lemma clamp_sent_error: "- (2 ^ 62) \<le> n \<Longrightarrow> n < 0 \<Longrightarrow> len < 65536 \<Longrightarrow> clamp_sent n len = int len"
proof -
  assume a: "- (2 ^ 62) \<le> n" "n < 0" "len < 65536"
  have "n mod 2 ^ 64 = n + 2 ^ 64"
    using mod_add_self2 [of n "2 ^ 64"] mod_pos_pos_trivial [of "n + 2 ^ 64" "2 ^ 64"] a by simp
  with a show ?thesis by (simp add: clamp_sent_def as_size_def as_ssize_def)
qed

lemma pending_advance:
  assumes "seg_ok q" "n \<le> length (pending q)"
  defines "q' \<equiv> q\<lparr>sg_sent := sg_sent q + of_nat n\<rparr>"
  shows "seg_ok q'" "pending q' = drop n (pending q)"
    "unat (sg_sent q') = unat (sg_sent q) + n" "sg_len q' = sg_sent q' \<longleftrightarrow> n = length (pending q)"
    "ucast (sg_sent q') = (ucast (sg_sent q) + of_nat n :: u32)"
proof -
  have le: "unat (sg_sent q) + n \<le> unat (sg_len q)"
    using assms(2) assms(1) [unfolded seg_ok_def word_le_nat_alt]
    unfolding length_pending [OF assms(1)] by linarith
  then have "unat (sg_sent q) + n < 65536" using unat_u16 [of "sg_len q"] by simp
  then show sent: "unat (sg_sent q') = unat (sg_sent q) + n"
    by (simp add: q'_def unat_word_ariths unsigned_of_nat take_bit_nat_eq_self)
  then show "seg_ok q'" using assms(1) le by (simp add: seg_ok_def q'_def word_le_nat_alt)
  show "pending q' = drop n (pending q)"
    using sent by (simp add: pending_def q'_def add.commute)
  have "sg_len q' = sg_sent q' \<longleftrightarrow> unat (sg_len q) = unat (sg_sent q) + n"
    using sent by (metis unsigned_word_eqI q'_def segment.select_convs(2) segment.surjective
        segment.update_convs(3))
  then show "sg_len q' = sg_sent q' \<longleftrightarrow> n = length (pending q)"
    using le assms(1) by (auto simp: length_pending)
  have "ucast (sg_sent q') = (of_nat (unat (sg_sent q')) :: u32)" by simp
  also have "\<dots> = ucast (sg_sent q) + of_nat n" by (simp add: sent)
  finally show "ucast (sg_sent q') = (ucast (sg_sent q) + of_nat n :: u32)" .
qed


lemma head_readyE:
  assumes "head_ready cur b"
  obtains q qs where "t_forward cur = q # qs" "sg_seq q + ucast (sg_sent q) = t_remote_seq cur"
  using assms by (auto simp: head_ready_def split: list.splits)

text \<open>One advance by what the kernel took.\<close>

lemma forward_advance_ok:
  assumes "t_forward cur = q # qs" "seg_ok q" "n \<le> length (pending q)" "queue_inv (q # qs)"
    and "sg_seq q + ucast (sg_sent q) = t_remote_seq cur"
    and "forward_advance cur (int n) = (finished, cur')"
  shows "stream (t_forward cur) = take n (pending q) @ stream (t_forward cur')
    \<and> t_remote_seq cur' = t_remote_seq cur + of_nat n \<and> queue_inv (t_forward cur')
    \<and> t_state cur' = t_state cur \<and> tcp_ident cur' = tcp_ident cur \<and> tcp_addrs_ok cur' = tcp_addrs_ok cur
    \<and> socket cur' = socket cur"
proof -
  let ?q = "q\<lparr>sg_sent := sg_sent q + of_nat n\<rparr>"
  note adv = pending_advance [OF assms(2,3)]
  have inv: "queue_inv (?q # qs)"
    using assms(4) adv(1) by (auto simp: queue_inv_Cons seq_before_def)
  have rem: "t_remote_seq cur' = sg_seq q + ucast (sg_sent ?q)"
    using assms(1,6) by (auto simp: forward_advance_def Let_def split: if_splits)
  moreover have "t_forward cur' = (if n = length (pending q) then qs else ?q # qs)"
    using assms(1,6) adv(4) by (auto simp: forward_advance_def Let_def split: if_splits)
  moreover have "t_state cur' = t_state cur \<and> tcp_ident cur' = tcp_ident cur
      \<and> tcp_addrs_ok cur' = tcp_addrs_ok cur \<and> socket cur' = socket cur"
    using assms(6) by (auto simp: forward_advance_def Let_def tcp_addrs_ok_def split: if_splits)
  moreover have "pending q = take n (pending q) @ pending ?q"
    by (simp add: adv(2))
  moreover have "t_remote_seq cur' = t_remote_seq cur + of_nat n"
    unfolding rem adv(5) by (simp flip: assms(5))
  ultimately show ?thesis
    using inv assms(1,4) adv(2) by (auto simp: queue_inv_Cons)
qed


lemma forward_loop_stream:
  assumes "send_ok sys" "t_dest cur \<noteq> htons 80" "queue_inv (t_forward cur)"
  shows "\<exists>fwd' cur' evs. forward_loop sys cur b fwd tr = Inr (fwd', cur', tr @ evs)
    \<and> stream (t_forward cur) = accepted sys tr evs @ stream (t_forward cur')
    \<and> t_remote_seq cur' = t_remote_seq cur + of_nat (length (accepted sys tr evs))
    \<and> queue_inv (t_forward cur') \<and> t_state cur' = t_state cur \<and> tcp_ident cur' = tcp_ident cur
    \<and> tcp_addrs_ok cur' = tcp_addrs_ok cur \<and> socket cur' = socket cur \<and> (fwd' \<longleftrightarrow> fwd \<or> evs \<noteq> [])"
  using assms(2,3)
proof (induction "length (t_forward cur)" arbitrary: cur b fwd tr rule: less_induct)
  case less
  show ?case
  proof (cases "head_ready cur b")
    case False
    then show ?thesis using less.prems
      by (intro exI [of _ fwd] exI [of _ cur] exI [of _ "[]"]) (simp add: forward_loop.simps [of sys cur])
  next
    case True
    then obtain q qs where q: "t_forward cur = q # qs" "sg_seq q + ucast (sg_sent q) = t_remote_seq cur"
      by (rule head_readyE)
    with less.prems have ok: "seg_ok q" "queue_inv (q # qs)" by (simp_all add: queue_inv_Cons)
    define e where "e = ESend (socket cur) (pending q) (\<not> sg_psh q)"
    define n where "n = nat (fst (sys_send sys tr (socket cur) (pending q)))"
    have n: "fst (sys_send sys tr (socket cur) (pending q)) = int n" "n \<le> length (pending q)"
      using assms(1) by (simp_all add: send_ok_def n_def nat_le_iff)
    have acc: "accepted sys tr (e # evs) = take n (pending q) @ accepted sys (tr @ [e]) evs" for evs
      by (simp add: e_def n_def)
    obtain f cur1 where adv: "forward_advance cur (int n) = (f, cur1)" by fastforce
    note step = forward_advance_ok [OF q(1) ok(1) n(2) ok(2) q(2) adv]
    have loop: "forward_loop sys cur b fwd tr =
        (if f then forward_loop sys cur1 (b - of_nat n) True (tr @ [e]) else Inr (True, cur1, tr @ [e]))"
      using True n adv length_pending_less [OF ok(1)]
      by (simp add: forward_loop.simps [of sys cur] forward_send_eq [OF q(1) ok(1) less.prems(1)]
          Let_def clamp_sent_ok flip: e_def)
    show ?thesis
    proof (cases f)
      case False
      then show ?thesis using loop step n(2) acc [of "[]"]
        by (intro exI [of _ True] exI [of _ cur1] exI [of _ "[e]"]) simp
    next
      case True
      then have "length (t_forward cur1) < length (t_forward cur)"
        using forward_advance_shrinks [OF \<open>head_ready cur b\<close>] adv by simp
      from less.hyps [OF this, of "b - of_nat n" True "tr @ [e]"] step less.prems(1)
      obtain fwd' cur' evs where IH:
        "forward_loop sys cur1 (b - of_nat n) True (tr @ [e]) = Inr (fwd', cur', (tr @ [e]) @ evs)"
        "stream (t_forward cur1) = accepted sys (tr @ [e]) evs @ stream (t_forward cur')"
        "t_remote_seq cur' = t_remote_seq cur1 + of_nat (length (accepted sys (tr @ [e]) evs))"
        "queue_inv (t_forward cur')" "t_state cur' = t_state cur1" "tcp_ident cur' = tcp_ident cur1"
        "tcp_addrs_ok cur' = tcp_addrs_ok cur1" "socket cur' = socket cur1" "fwd' = True"
        by auto
      show ?thesis
        using IH loop True step n(2) acc [of evs]
        by (intro exI [of _ True] exI [of _ cur'] exI [of _ "e # evs"]) (simp add: algebra_simps)
    qed
  qed
qed


lemma accepted_append:
  "accepted sys tr (xs @ ys) = accepted sys tr xs @ accepted sys (tr @ xs) ys"
  by (induction sys tr xs rule: accepted.induct) simp_all

lemma get_receive_buffer_trace:
  "\<exists>n es. get_receive_buffer sys fd tr = (n, tr @ es) \<and> accepted sys tr es = []"
  by (simp add: get_receive_buffer_def Let_def)

text \<open>
  C9: With a kernel that takes a part of what it is given, the forwarding of a session (of any port
  but 80) never faults and is exactly the abstract stream operation: the bytes the socket took,
  followed by what is still queued, are the bytes that were queued; \<open>remote_seq\<close>, which the
  acknowledgement will carry, moves by the number of bytes taken; the queue stays in order.
\<close>

theorem tcp_forward_is_stream_prefix:
  assumes "send_ok sys" "t_dest cur \<noteq> htons 80" "queue_inv (t_forward cur)"
  shows "\<exists>fwd cur' es. tcp_forward sys evs cur tr = Inr (fwd, cur', tr @ es)
    \<and> stream (t_forward cur) = accepted sys tr es @ stream (t_forward cur')
    \<and> t_remote_seq cur' = t_remote_seq cur + of_nat (length (accepted sys tr es))
    \<and> queue_inv (t_forward cur') \<and> t_state cur' = t_state cur"
proof (cases "has_event evs EPOLLOUT")
  case True
  obtain n es where b: "get_receive_buffer sys (socket cur) tr = (n, tr @ es)" "accepted sys tr es = []"
    using get_receive_buffer_trace by blast
  show ?thesis
    using forward_loop_stream [OF assms, of "word_of_int n" False "tr @ es"] True b
    by (fastforce simp: tcp_forward_def accepted_append)
next
  case False
  then have "tcp_forward sys evs cur tr = Inr (False, cur, tr @ [])"
    by (simp add: tcp_forward_def)
  then show ?thesis
    using assms(3) by (intro exI [of _ False] exI [of _ cur] exI [of _ "[]"]) simp
qed

definition sample_queued :: tcp_session where
  "sample_queued = (sample_session TCP_ESTABLISHED)\<lparr>t_dest := htons 8080, t_remote_seq := 5,
     t_forward := [new_segment 5 2 True [104, 105]]\<rparr>"

definition partial_sys :: sys where
  "partial_sys = calm_sys\<lparr>sys_send := \<lambda>_ _ b. (int (length b div 2), EAGAIN)\<rparr>"

lemma sample_queued_simps [simp]:
  "t_dest sample_queued = htons 8080" "t_remote_seq sample_queued = 5" "socket sample_queued = 7"
  "t_forward sample_queued = [new_segment 5 2 True [104, 105]]" "t_state sample_queued = TCP_ESTABLISHED"
  "t_sent sample_queued = 0"
  by (simp_all add: sample_queued_def sample_session_def zero_tcp_session_def)

lemma sample_queued_ok: "queue_inv (t_forward sample_queued)" "tcp_inv sample_queued"
    "htons 8080 \<noteq> htons 80"
  by (auto simp: tcp_inv_def queue_inv_Cons seg_ok_def new_segment_def live_state_def tcp_addrs_ok_def
      addr_ok_def sample_queued_def sample_session_def zero_tcp_session_def dest: arg_cong [of _ _ ntohs])

theorem tcp_forward_is_stream_prefix_witness:
  "\<exists>fwd cur' es. tcp_forward partial_sys EPOLLOUT sample_queued [] = Inr (fwd, cur', es)
    \<and> [104, 105] = accepted partial_sys [] es @ stream (t_forward cur')"
proof -
  have s: "stream (t_forward sample_queued) = [104, 105]"
    by (simp add: new_segment_def pending_def)
  have "send_ok partial_sys" by (simp add: send_ok_def partial_sys_def)
  then show ?thesis
    using tcp_forward_is_stream_prefix [of partial_sys sample_queued EPOLLOUT "[]"]
      sample_queued_ok(1,3) unfolding s by fastforce
qed

text \<open>
  When \<open>send\<close> fails (-1, for instance with \<open>EAGAIN\<close>) the error branch is not taken: the
  comparison \<open>sent > len\<close> is unsigned, so the whole rest of the segment counts as sent, is removed
  from the queue and is acknowledged to the client, although the remote never gets it.
\<close>

theorem failed_send_loses_segment:
  assumes "t_forward cur = [q]" "seg_ok q" "head_ready cur b" "t_dest cur \<noteq> htons 80"
    and "sys_send sys tr (socket cur) (pending q) = (-1, errno)"
  shows "forward_loop sys cur b fwd tr =
    Inr (True, cur\<lparr>t_forward := [], t_sent := t_sent cur + of_nat (length (pending q)),
           t_remote_seq := t_remote_seq cur + of_nat (length (pending q))\<rparr>,
         tr @ [ESend (socket cur) (pending q) (\<not> sg_psh q)])"
proof -
  let ?n = "length (pending q)"
  have q: "sg_seq q + ucast (sg_sent q) = t_remote_seq cur"
    using assms(1,3) by (auto elim: head_readyE)
  have "clamp_sent (-1) ?n = int ?n"
    by (rule clamp_sent_error) (simp_all add: length_pending_less [OF assms(2)])
  moreover have "forward_advance cur (int ?n) = (True, cur\<lparr>t_sent := t_sent cur + of_nat ?n,
      t_remote_seq := t_remote_seq cur + of_nat ?n, t_forward := []\<rparr>)"
    using pending_advance(4,5) [OF assms(2) order_refl] q assms(1)
    by (simp add: forward_advance_def Let_def flip: q)
  ultimately show ?thesis
    using assms(3) by (simp add: forward_loop.simps [of sys cur]
        forward_send_eq [OF assms(1,2,4)] Let_def assms(5))
      (simp add: forward_loop.simps head_ready_def)
qed


definition eagain_sys :: sys where
  "eagain_sys = calm_sys\<lparr>sys_send := \<lambda>_ _ _. (-1, EAGAIN)\<rparr>"

theorem failed_send_loses_segment_witness:
  "\<exists>cur'. forward_loop eagain_sys sample_queued 1000 False []
     = Inr (True, cur', [ESend 7 [104, 105] False]) \<and> t_forward cur' = [] \<and> t_remote_seq cur' = 7"
proof -
  have "seg_ok (new_segment 5 2 True [104, 105])" "head_ready sample_queued 1000"
    by (simp_all add: seg_ok_def new_segment_def head_ready_def)
  moreover have "pending (new_segment 5 2 True [104, 105]) = [104, 105]"
    by (simp add: pending_def new_segment_def)
  ultimately show ?thesis
    using failed_send_loses_segment [of sample_queued "new_segment 5 2 True [104, 105]" 1000
        eagain_sys "[]" EAGAIN False] sample_queued_ok(3)
    by (simp add: eagain_sys_def) (simp add: new_segment_def)
qed

section \<open>Every event keeps the invariant and the life cycle\<close>

lemma word_of_int_as_size:
  "(word_of_int n :: u16) = of_nat (as_size n)" "(word_of_int n :: u64) = of_nat (as_size n)"
proof -
  have m: "n mod 2 ^ 64 = take_bit 64 n" by (simp only: take_bit_eq_mod)
  then have n: "int (as_size n) = take_bit 64 n" by (simp add: as_size_def)
  have "(word_of_int (take_bit 64 n) :: u16) = word_of_int n"
    "(word_of_int (take_bit 64 n) :: u64) = word_of_int n"
    by (simp_all add: word_of_int_eq_iff take_bit_take_bit)
  then show "(word_of_int n :: u16) = of_nat (as_size n)" "(word_of_int n :: u64) = of_nat (as_size n)"
    unfolding n [symmetric] by simp_all
qed

lemma forward_advance_as_size: "forward_advance cur n = forward_advance cur (int (as_size n))"
  unfolding forward_advance_def word_of_int_as_size [of n] by simp

lemma clamp_sent_bound: "len < 65536 \<Longrightarrow> as_size (clamp_sent n len) \<le> len"
  by (auto simp: clamp_sent_def as_ssize_def as_size_def)

lemma forward_send_clamped:
  "forward_send sys cur tr = Inr (sent, errno, tr') \<Longrightarrow> t_forward cur = q # qs \<Longrightarrow> seg_ok q \<Longrightarrow>
   as_size sent \<le> length (pending q)"
proof -
  assume a: "forward_send sys cur tr = Inr (sent, errno, tr')" "t_forward cur = q # qs" "seg_ok q"
  have len: "size_sub (unat (sg_len q)) (unat (sg_sent q)) = length (pending q)"
    using a(3) by (simp add: length_pending seg_ok_def word_le_nat_alt)
  have "\<exists>n. sent = clamp_sent n (length (pending q))"
    using a(1) unfolding forward_send_def Let_def rbind_eq_Inr a(2) list.sel len
    by (auto simp: case_prod_beta)
  then show ?thesis using clamp_sent_bound [OF length_pending_less [OF a(3)]] by blast
qed

lemma tcp_inv_cong:
  "tcp_inv s \<Longrightarrow> queue_inv (t_forward s') \<Longrightarrow> tcp_addrs_ok s' = tcp_addrs_ok s \<Longrightarrow>
   t_state s' = t_state s \<Longrightarrow> socket s' = socket s \<Longrightarrow> tcp_inv s'"
  by (simp add: tcp_inv_def)

lemma forward_loop_inv:
  assumes "forward_loop sys cur b fwd tr = Inr (fwd', cur', tr')" "tcp_inv cur" "t_state cur \<noteq> TCP_CLOSE"
  shows "tcp_inv cur' \<and> tcp_ident cur' = tcp_ident cur \<and>
    (t_state cur' = t_state cur \<or> t_state cur' = TCP_CLOSING)"
  using assms
proof (induction sys cur b fwd tr arbitrary: fwd' cur' tr' rule: forward_loop.induct)
  case (1 sys cur b fwd tr)
  show ?case
  proof (cases "head_ready cur b")
    case False
    then show ?thesis using "1.prems" by (auto simp: forward_loop.simps [of sys cur])
  next
    case True
    then obtain q qs where q: "t_forward cur = q # qs" "sg_seq q + ucast (sg_sent q) = t_remote_seq cur"
      by (rule head_readyE)
    with "1.prems"(2) have ok: "seg_ok q" "queue_inv (q # qs)"
      by (simp_all add: queue_inv_Cons tcp_inv_def)
    obtain sent errno tr1 where s: "forward_send sys cur tr = Inr (sent, errno, tr1)"
      using "1.prems"(1) True by (auto simp: forward_loop.simps [of sys cur] rbind_eq_Inr)
    obtain f cur1 where adv: "forward_advance cur sent = (f, cur1)" by fastforce
    note step = forward_advance_ok [OF q(1) ok(1) forward_send_clamped [OF s q(1) ok(1)] ok(2) q(2)
        adv [unfolded forward_advance_as_size [of cur sent]]]
    then have inv1: "tcp_inv cur1" "t_state cur1 = t_state cur" "tcp_ident cur1 = tcp_ident cur"
      using "1.prems"(2) by (auto intro: tcp_inv_cong)
    have IH: "f \<Longrightarrow> \<not> sent < 0 \<Longrightarrow>
        forward_loop sys cur1 (b - word_of_int sent) True tr1 = Inr (fwd', cur', tr') \<Longrightarrow> ?thesis"
      using "1.IH" [OF True s refl refl _ adv [symmetric]] inv1 "1.prems"(3) by simp
    show ?thesis
      using "1.prems" True s adv inv1 IH write_rst_frame [of sys cur tr1]
      by (auto simp: forward_loop.simps [of sys cur] split: if_splits prod.splits)
  qed
qed


lemma tcp_forward_keeps:
  "tcp_forward sys evs s tr = Inr (fwd, s', tr') \<Longrightarrow> tcp_inv s \<Longrightarrow> t_state s \<noteq> TCP_CLOSE \<Longrightarrow>
   tcp_keeps h s s' \<and> t_state s' \<noteq> TCP_CLOSE"
  by (rule tcp_keeps_abort)
    (auto simp: tcp_forward_def dest: forward_loop_inv split: if_splits prod.splits)

lemma tcp_window_ack_eq:
  "tcp_window_ack sys fwd cur tr =
     (let (window, tr1) = get_receive_window sys cur tr;
          c = (if fwd \<and> t_forward cur = [] \<and> t_state cur = TCP_CLOSE_WAIT
               then cur\<lparr>t_recv_window := window, t_remote_seq := t_remote_seq cur + 1\<rparr>
               else cur\<lparr>t_recv_window := window\<rparr>);
          p = tcp_packet c [] False True False False
      in if fwd \<or> t_recv_window cur = 0 \<and> window > 0
         then if sys_tun_write sys tr1 p = int (length p)
              then (c\<lparr>t_time := sys_time sys (tr1 @ [ETunWrite p])\<rparr>, tr1 @ [ETunWrite p, ETime])
              else (c\<lparr>t_state := TCP_CLOSING\<rparr>, tr1 @ [ETunWrite p])
         else (cur\<lparr>t_recv_window := window\<rparr>, tr1))"
  by (auto simp: tcp_window_ack_def ack.w_eq Let_def split: prod.splits)

lemma tcp_window_ack_keeps:
  "tcp_window_ack sys fwd s tr = (s', tr') \<Longrightarrow> tcp_inv s \<Longrightarrow> t_state s \<noteq> TCP_CLOSE \<Longrightarrow>
   tcp_keeps h s s' \<and> t_state s' \<noteq> TCP_CLOSE"
  by (rule tcp_keeps_abort)
    (auto simp: tcp_window_ack_eq Let_def split: if_splits prod.splits)

text \<open>The end of the remote's data closes the socket.\<close>

lemma tcp_remote_eof_eq:
  "tcp_remote_eof sys cur tr =
     (let p = tcp_packet cur [] False True True False
      in if t_forward cur \<noteq> [] then
           (fst (write_rst sys cur tr)\<lparr>socket := -1\<rparr>, snd (write_rst sys cur tr) @ [EClose (socket cur)])
         else if sys_tun_write sys tr p = int (length p) then
           (cur\<lparr>t_local_seq := t_local_seq cur + 1, socket := -1,
                t_state := (if t_state cur = TCP_ESTABLISHED then TCP_FIN_WAIT1
                            else if t_state cur = TCP_CLOSE_WAIT then TCP_LAST_ACK
                            else t_state cur)\<rparr>, tr @ [ETunWrite p, EClose (socket cur)])
         else (cur\<lparr>socket := -1, t_state := TCP_CLOSING\<rparr>, tr @ [ETunWrite p, EClose (socket cur)]))"
proof -
  have "socket (fst (write_rst sys cur tr)) = socket cur"
    by (simp add: write_rst_eq Let_def)
  then show ?thesis
    by (cases cur) (simp add: tcp_remote_eof_def fin_ack.w_eq Let_def case_prod_beta)
qed

lemma tcp_remote_eof_keeps:
  assumes "tcp_remote_eof sys s tr = (s', tr')" "tcp_inv s"
    and "t_state s = TCP_ESTABLISHED \<or> t_state s = TCP_CLOSE_WAIT"
  shows "tcp_keeps h s s' \<and> socket s' = -1"
proof -
  have ne: "t_state s \<noteq> TCP_CLOSE" using assms(3) by auto
  obtain s1 tr1 where r: "write_rst sys s tr = (s1, tr1)" by fastforce
  have s1: "tcp_inv s1" "tcp_ident s1 = tcp_ident s" "t_state s1 = TCP_CLOSING"
    using write_rst_frame [OF r assms(2)] ne by auto
  have inv: "queue_inv (t_forward s)" "tcp_addrs_ok s" using assms(2) by (simp_all add: tcp_inv_def)
  consider "s' = s1\<lparr>socket := -1\<rparr>" | "s' = s\<lparr>socket := -1, t_state := TCP_CLOSING\<rparr>"
    | "s' = s\<lparr>t_local_seq := t_local_seq s + 1, socket := -1,
        t_state := (if t_state s = TCP_ESTABLISHED then TCP_FIN_WAIT1 else TCP_LAST_ACK)\<rparr>"
    using assms(1,3) r by (auto simp: tcp_remote_eof_eq Let_def split: if_splits)
  then show ?thesis
  proof cases
    case 1
    then show ?thesis using s1 ne
      by (simp add: tcp_keeps_def tcp_path_abort) (simp add: tcp_inv_def tcp_addrs_ok_def)
  next
    case 2
    then show ?thesis using inv ne
      by (simp add: tcp_keeps_def tcp_path_abort) (simp add: tcp_inv_def tcp_addrs_ok_def)
  next
    case 3
    then show ?thesis using inv assms(3)
      by (auto simp: tcp_keeps_def tcp_inv_def tcp_addrs_ok_def dead_state_def intro: tcp_paths)
  qed
qed

lemma tcp_receive_keeps:
  assumes "tcp_receive sys evs s tr = (s', tr')" "tcp_inv s"
    and "t_state s = TCP_ESTABLISHED \<or> t_state s = TCP_CLOSE_WAIT"
  shows "tcp_keeps h s s'"
proof (cases "has_event evs EPOLLIN \<and> get_send_window s > 0")
  case False
  then show ?thesis using assms by (auto simp: tcp_receive_def Let_def)
next
  case True
  let ?n = "unat (if get_send_window s > ucast (t_mss s) then ucast (t_mss s) else get_send_window s)"
  let ?s = "s\<lparr>t_time := sys_time sys tr\<rparr>"
  let ?tr = "tr @ [ETime] @ [ERecv (socket s) ?n]"
  have inv: "tcp_inv ?s" and keeps: "tcp_keeps h s ?s" and st: "t_state ?s = t_state s"
    using assms(2) by (simp_all add: tcp_keeps_def)
  show ?thesis
  proof (cases "sys_recv sys (tr @ [ETime]) (socket s) ?n")
    case (Inl e)
    then have "write_rst sys ?s ?tr = (s', tr') \<or> s' = ?s"
      using assms(1) True by (auto simp: tcp_receive_def Let_def split: if_splits)
    then show ?thesis
      using tcp_keeps_rst [OF _ inv, of sys ?tr s' tr' h] assms(3) st keeps
      by (auto intro: tcp_keeps_trans)
  next
    case (Inr buffer)
    show ?thesis
    proof (cases "buffer = []")
      case True
      then have "tcp_remote_eof sys ?s ?tr = (s', tr')"
        using assms(1) Inr \<open>has_event _ _ \<and> _\<close> by (auto simp: tcp_receive_def Let_def)
      from tcp_remote_eof_keeps [OF this inv, of h] show ?thesis
        using assms(3) st keeps by (auto intro: tcp_keeps_trans)
    next
      case False
      then show ?thesis
        using assms True Inr
        by (auto simp: tcp_receive_def Let_def data.w_eq tcp_keeps_def split: if_splits
            intro: tcp_path_abort)
    qed
  qed
qed


lemma tcp_connected_keeps:
  assumes "tcp_connected sys s tr = (s', tr')" "tcp_inv s" "t_state s = TCP_LISTEN"
  shows "tcp_keeps h s s'"
proof -
  have "tcp_keeps h s (s\<lparr>t_remote_seq := t_remote_seq s + 1, t_state := TCP_CLOSING\<rparr>)"
    using assms(2,3) by (simp add: tcp_keeps_def tcp_path_abort)
  moreover have "tcp_keeps h s (s\<lparr>t_remote_seq := a, t_time := t, t_local_seq := b, t_state := TCP_SYN_RECV\<rparr>)"
    for a b t
    using assms(2,3) by (auto simp: tcp_keeps_def tcp_inv_def live_state_def dead_state_def
        tcp_addrs_ok_def intro: tcp_paths)
  ultimately show ?thesis
    using assms(1) by (auto simp: tcp_connected_def syn_ack.w_eq Let_def split: if_splits)
qed

lemma tcp_connect_reply_keeps:
  assumes "tcp_connect_reply sys s tr = Inr (s', tr')" "tcp_inv s" "t_state s = TCP_LISTEN"
  shows "tcp_keeps h s s'"
proof -
  let ?tr = "tr @ [ERecv (socket s) 12]"
  have "write_rst sys s ?tr = (s', tr') \<or> s' = s \<or>
      s' = s\<lparr>t_connect_sent := TCP_CONNECT_ESTABLISHED, t_state := TCP_SYN_RECV\<rparr>"
    using assms(1) by (cases "sys_recv sys tr (socket s) 12"; cases "drain sys (socket s) ?tr")
      (simp_all add: tcp_connect_reply_def Let_def split: if_splits)
  then consider "write_rst sys s ?tr = (s', tr')" | "s' = s"
    | "s' = s\<lparr>t_connect_sent := TCP_CONNECT_ESTABLISHED, t_state := TCP_SYN_RECV\<rparr>" by blast
  then show ?thesis
  proof cases
    case 1
    then show ?thesis using tcp_keeps_rst [OF 1 assms(2), of h] assms(3) by simp
  next
    case 3
    then show ?thesis using assms(2,3)
      by (auto simp: tcp_keeps_def tcp_inv_def live_state_def dead_state_def tcp_addrs_ok_def
          intro: tcp_paths)
  qed (simp add: assms(2))
qed

lemma tcp_data_event_keeps:
  assumes "tcp_data_event sys evs s tr = Inr (s', tr')" "tcp_inv s" "t_state s \<noteq> TCP_CLOSE"
  shows "tcp_keeps h s s'"
proof -
  obtain fwd s1 tr1 where f: "tcp_forward sys evs s tr = Inr (fwd, s1, tr1)"
    using assms(1) by (auto simp: tcp_data_event_def rbind_eq_Inr)
  obtain s2 tr2 where w: "tcp_window_ack sys fwd s1 tr1 = (s2, tr2)" by fastforce
  have 1: "tcp_keeps h s s1 \<and> t_state s1 \<noteq> TCP_CLOSE"
    by (rule tcp_forward_keeps [OF f assms(2,3)])
  then have 2: "tcp_keeps h s1 s2"
    using tcp_window_ack_keeps [OF w, of h] by (simp add: tcp_keeps_def)
  have "s' = s2 \<or> (t_state s2 = TCP_ESTABLISHED \<or> t_state s2 = TCP_CLOSE_WAIT) \<and>
      tcp_receive sys evs s2 tr2 = (s', tr')"
    using assms(1) by (auto simp: tcp_data_event_def f w split: if_splits)
  then have "tcp_keeps h s2 s'"
    using 2 tcp_receive_keeps [of sys evs s2 tr2 s' tr' h] by (auto simp: tcp_keeps_def)
  with 1 2 show ?thesis by (blast intro: tcp_keeps_trans)
qed

lemma check_tcp_socket_keeps:
  assumes "check_tcp_socket sys evs s tr = Inr (s', tr')" "tcp_inv s" "0 \<le> socket s"
  shows "tcp_keeps h s s'"
proof -
  have alive: "t_state s \<noteq> TCP_CLOSE" using assms(2,3) tcp_inv_close by force
  let ?s = "s\<lparr>t_time := sys_time sys tr\<rparr>"
  have "tcp_keeps h s ?s" using assms(2) by (simp add: tcp_keeps_def)
  moreover have "tcp_keeps h ?s s'" if "write_rst sys ?s (tr @ [ETime]) = (s', tr')"
    using tcp_keeps_rst [OF that, of h] assms(2) alive by simp
  ultimately show ?thesis
    using assms(1,2) alive tcp_connect_reply_keeps [of sys s tr s' tr' h]
      tcp_connected_keeps [of sys s tr s' tr' h] tcp_data_event_keeps [of sys evs s tr s' tr' h]
    by (auto simp: check_tcp_socket_def split: if_splits intro: tcp_keeps_trans)
qed

text \<open>
  Whatever event epoll reports on a session's socket and whatever the kernel, the remote and the
  clock answer, the handler keeps the session invariant (queue in sequence order, no segment sent
  beyond its length, a socket exactly in the live states) and moves the state along the life cycle.
\<close>

theorem check_tcp_socket_inv:
  assumes "tcp_inv s" "0 \<le> socket s" "check_tcp_socket sys evs s tr = Inr (s', tr')"
  shows "tcp_inv s' \<and> tcp_ident s' = tcp_ident s \<and> t_state s \<le> t_state s'"
  using check_tcp_socket_keeps [OF assms(3,1,2)] tcp_path_forward by (simp add: tcp_keeps_def)

theorem check_tcp_socket_inv_witness:
  "\<exists>s' tr'. check_tcp_socket partial_sys EPOLLERR sample_queued [] = Inr (s', tr') \<and> tcp_inv s'
     \<and> TCP_ESTABLISHED \<le> t_state s'"
proof -
  obtain s' tr' where "write_rst partial_sys (sample_queued\<lparr>t_time := sys_time partial_sys []\<rparr>) [ETime]
      = (s', tr')" by fastforce
  then have c: "check_tcp_socket partial_sys EPOLLERR sample_queued [] = Inr (s', tr')"
    by (simp add: check_tcp_socket_def has_event_def EPOLLERR_def)
  show ?thesis
    using check_tcp_socket_inv [OF _ _ c] sample_queued_ok(2) c by simp
qed



definition proxy_sys :: sys where
  "proxy_sys = calm_sys\<lparr>sys_recv := \<lambda>_ _ n. Inr (if n = 12 then cstr ''HTTP/1.0 200'' else [])\<rparr>"


definition in_flight :: "tcp_session \<Rightarrow> nat" where
  "in_flight s = unat (t_local_seq s - t_acked s)"

lemma in_flight_add:
  assumes "compare_u32 (t_acked s) (t_local_seq s) \<le> 0" "k \<le> unat (get_send_window s)"
    and "in_flight s \<le> unat (t_send_window s)"
  shows "unat (t_local_seq s + of_nat k - t_acked s) \<le> unat (t_send_window s)"
proof -
  have le: "in_flight s + k \<le> unat (t_send_window s)"
    using assms get_send_window_in_flight [OF assms(1)] by (simp add: in_flight_def)
  then have lt: "in_flight s + k < 2 ^ 32" using unat_u32 [of "t_send_window s"] by simp
  have "t_local_seq s + of_nat k - t_acked s = of_nat (in_flight s + k)"
    by (simp add: in_flight_def algebra_simps)
  then have "unat (t_local_seq s + of_nat k - t_acked s) = in_flight s + k"
    using lt by (simp only: unsigned_of_nat) (simp add: take_bit_nat_eq_self)
  with le show ?thesis by simp
qed



definition sample_reading :: tcp_session where
  "sample_reading = (sample_session TCP_ESTABLISHED)\<lparr>t_send_window := 100, t_mss := 50\<rparr>"


end
