(* ===== verification/Tcp_Handle.thy ===== *)
theory Tcp_Handle
  imports Tcp_Session Tcp_Options Session_Table Tls
begin

text \<open>
  A TCP packet from the client (\<open>handle_tcp\<close> of \<open>tcp.c\<close>): the session it belongs to, the new
  session of a SYN, the reset of a stray packet, the CONNECT request of port 443, and the state
  machine of an open session.
\<close>

section \<open>The packet\<close>

text \<open>The locals at the head of \<open>handle_tcp\<close>.\<close>

record tcp_input =
  ti_version :: int
  ti_saddr :: bytes
  ti_daddr :: bytes
  ti_hdr :: tcphdr
  ti_optlen :: byte
  ti_options :: bytes
  ti_data :: bytes
  ti_datalen :: u16

text \<open>
  \<open>pkt\<close> is the buffer, \<open>len\<close> the number of bytes of the packet, \<open>off\<close> the offset of the payload.
  Nothing checks \<open>doff\<close>: both \<open>tcpoptlen\<close> and \<open>datalen\<close> wrap at their width.
\<close>

definition parse_tcp :: "bytes \<Rightarrow> nat \<Rightarrow> nat \<Rightarrow> tcp_input result" where
  "parse_tcp pkt len off =
     rbind (rd pkt 0) (\<lambda>b0.
     let version = int (unat (drop_bit 4 b0)) in
     rbind (load_tcphdr (drop off pkt)) (\<lambda>th.
     rbind (if version = 4 then rbind (load_iphdr pkt) (\<lambda>ip. Inr (ip_saddr ip, ip_daddr ip))
            else rbind (load_ip6_hdr pkt) (\<lambda>ip. Inr (ip6_src ip, ip6_dst ip))) (\<lambda>(saddr, daddr).
     let tcpoptlen = word_of_int ((int (unat (th_doff th)) - 5) * 4);
         data = off + 20 + unat tcpoptlen
     in Inr \<lparr>ti_version = version, ti_saddr = saddr, ti_daddr = daddr, ti_hdr = th,
             ti_optlen = tcpoptlen, ti_options = drop (off + 20) pkt,
             ti_data = drop data pkt, ti_datalen = word_of_int (int len - int data)\<rparr>)))"

abbreviation ti_seq :: "tcp_input \<Rightarrow> u32" where
  "ti_seq p \<equiv> ntohl (th_seq (ti_hdr p))"

abbreviation ti_ack :: "tcp_input \<Rightarrow> u32" where
  "ti_ack p \<equiv> ntohl (th_ack_seq (ti_hdr p))"

text \<open>The condition of the search loop.\<close>

definition tcp_matches :: "tcp_input \<Rightarrow> session \<Rightarrow> bool" where
  "tcp_matches p s = (case s of
      TCP c \<Rightarrow> t_version c = ti_version p \<and>
        t_source c = th_source (ti_hdr p) \<and> t_dest c = th_dest (ti_hdr p) \<and>
        (if ti_version p = 4 then ip4 (t_saddr c) = ti_saddr p \<and> ip4 (t_daddr c) = ti_daddr p
         else t_saddr c = ti_saddr p \<and> t_daddr c = ti_daddr p)
    | _ \<Rightarrow> False)"

section \<open>A packet without a session\<close>

definition SYN_data :: "tcp_input \<Rightarrow> segment list result" where
  "SYN_data p =
     (if ti_datalen p \<noteq> 0
      then rbind (rd_bytes (ti_data p) 0 (unat (ti_datalen p))) (\<lambda>d.
           Inr [new_segment (ti_seq p) (ti_datalen p) (th_psh (ti_hdr p)) d])
      else Inr [])"

text \<open>The fields of the new session, in the order of the code; the host name is written later.\<close>

definition tcp_new_session ::
  "sys \<Rightarrow> tcp_input \<Rightarrow> int \<Rightarrow> u16 \<times> byte \<Rightarrow> segment list \<Rightarrow> trace \<Rightarrow> tcp_session \<times> trace" where
  "tcp_new_session sys p uid mw fwd tr =
     (let (mss, ws) = mw;
          now = sys_time sys tr; tr = tr @ [ETime];
          isn = word_of_int (sys_rand sys tr); tr = tr @ [ERand]
      in (\<lparr>socket = -1, events = 0, t_uid = uid, t_time = now, t_version = ti_version p, t_mss = mss,
           t_recv_scale = ws, t_send_scale = ws, t_recv_window = 0,
           t_send_window = push_bit (unat ws) (ucast (ntohs (th_window (ti_hdr p)))),
           t_remote_seq = ti_seq p, t_local_seq = isn,
           t_remote_start = ti_seq p, t_local_start = isn,
           t_acked = 0, t_last_keep_alive = 0, t_sent = 0, t_received = 0,
           t_saddr = ti_saddr p, t_source = th_source (ti_hdr p),
           t_daddr = ti_daddr p, t_dest = th_dest (ti_hdr p), t_state = TCP_LISTEN,
           t_forward = fwd, t_hostname = [],
           t_connect_sent = (if htons (th_dest (ti_hdr p)) = 80 then TCP_CONNECT_ESTABLISHED
                             else TCP_CONNECT_NOT_SENT)\<rparr>, tr))"

definition tcp_syn ::
  "sys \<Rightarrow> arguments \<Rightarrow> tcp_input \<Rightarrow> int \<Rightarrow> session list \<Rightarrow> trace \<Rightarrow> (session list \<times> trace) result" where
  "tcp_syn sys args p uid ss tr =
     rbind (tcp_options_in (ti_options p) (ti_optlen p) (get_default_mss (ti_version p))) (\<lambda>mw.
     rbind (SYN_data p) (\<lambda>fwd.
       let (s, tr) = tcp_new_session sys p uid mw fwd tr;
           (sock, tr) = open_tcp_socket sys args s tr
       in if sock < 0 then Inr (ss, tr)
          else
            let s = s\<lparr>socket := sock\<rparr>;
                (window, tr) = get_receive_window sys s tr;
                s = s\<lparr>t_recv_window := window, events := EPOLLOUT OR EPOLLERR\<rparr>
            in Inr (TCP s # ss, tr @ [EEpollAdd sock (EPOLLOUT OR EPOLLERR)])))"

text \<open>The reset of an unknown session; \<open>rst.version\<close> is 4 whatever the packet's is.\<close>

definition tcp_reject :: "sys \<Rightarrow> tcp_input \<Rightarrow> trace \<Rightarrow> trace" where
  "tcp_reject sys p tr =
     (let h = ti_hdr p;
          rst = zero_tcp_session\<lparr>t_version := 4, t_local_seq := ti_ack p,
            t_remote_seq := ti_seq p + ucast (ti_datalen p) + (if th_syn h \<or> th_fin h then 1 else 0)\<rparr>;
          pad = (\<lambda>a. if ti_version p = 4 then a @ replicate 12 0 else a);
          rst = rst\<lparr>t_saddr := pad (ti_saddr p), t_daddr := pad (ti_daddr p),
            t_source := th_source h, t_dest := th_dest h\<rparr>
      in snd (write_rst sys rst tr))"

section \<open>The CONNECT request\<close>

text \<open>\<open>inet_ntoa\<close>: the four bytes in decimal, with dots.\<close>

definition dec_byte :: "byte \<Rightarrow> bytes" where
  "dec_byte b =
     (let n = unat b
      in (if n \<ge> 100 then [of_nat (48 + n div 100)] else [])
         @ (if n \<ge> 10 then [of_nat (48 + n div 10 mod 10)] else []) @ [of_nat (48 + n mod 10)])"

definition inet_ntoa :: "bytes \<Rightarrow> bytes" where
  "inet_ntoa a = dec_byte (a ! 0) @ [46] @ dec_byte (a ! 1) @ [46] @ dec_byte (a ! 2) @ [46] @ dec_byte (a ! 3)"

text \<open>\<open>strncpy(hostname, inet_ntoa(addr->sin_addr), hostlen); hostname[hostlen - 1] = 0;\<close>\<close>

definition lookup_hostname :: "bytes \<Rightarrow> nat \<Rightarrow> bytes" where
  "lookup_hostname addr hostlen = take (hostlen - 1) (inet_ntoa addr)"

definition connect_request :: "bytes \<Rightarrow> bytes" where
  "connect_request hostname =
     cstr ''CONNECT '' @ hostname @ cstr '':443 HTTP/1.0'' @ [13, 10, 13, 10]"

text \<open>\<open>sprintf\<close> into \<open>uint8_t buffer[512]\<close>, with the terminating NUL.\<close>

definition tcp_proxy_connect ::
  "sys \<Rightarrow> bytes \<Rightarrow> tcp_session \<Rightarrow> trace \<Rightarrow> (tcp_session \<times> trace) result" where
  "tcp_proxy_connect sys hostname cur tr =
     (let hostname = (if hostname \<noteq> [] then hostname else lookup_hostname (ip4 (t_daddr cur)) 512);
          cur = (if hostname \<noteq> [] then cur\<lparr>t_hostname := hostname\<rparr> else cur)
      in if t_connect_sent cur = TCP_CONNECT_NOT_SENT \<and> hostname \<noteq> []
         then
           let buffer = connect_request (t_hostname cur)
           in if length buffer + 1 > 512 then Inl OobWrite
              else
                let (sent, _) = sys_send sys tr (socket cur) buffer;
                    tr = tr @ [ESend (socket cur) buffer False]
                in Inr (if sent < 0 then write_rst sys cur tr
                        else (cur\<lparr>t_connect_sent := TCP_CONNECT_SENT, t_state := TCP_LISTEN\<rparr>, tr))
         else Inr (cur, tr))"

section \<open>A packet of an open session\<close>

definition tcp_fin :: "sys \<Rightarrow> tcp_session \<Rightarrow> trace \<Rightarrow> tcp_session \<times> trace" where
  "tcp_fin sys cur tr =
     (if t_state cur = TCP_ESTABLISHED
      then if t_forward cur = []
        then let (r, cur, tr) = write_ack sys (cur\<lparr>t_remote_seq := t_remote_seq cur + 1\<rparr>) tr
             in (if r \<ge> 0 then cur\<lparr>t_state := TCP_CLOSE_WAIT\<rparr> else cur, tr)
        else (cur\<lparr>t_state := TCP_CLOSE_WAIT\<rparr>, tr)
      else if t_state cur = TCP_CLOSE_WAIT then (cur, tr)
      else if t_state cur = TCP_FIN_WAIT1
      then let (r, cur, tr) = write_ack sys (cur\<lparr>t_remote_seq := t_remote_seq cur + 1\<rparr>) tr
           in (if r \<ge> 0 then cur\<lparr>t_state := TCP_CLOSE\<rparr> else cur, tr)
      else (cur, tr))"

definition tcp_ack :: "u32 \<Rightarrow> tcp_session \<Rightarrow> tcp_session" where
  "tcp_ack ack cur =
     (let cur = cur\<lparr>t_acked := ack\<rparr>
      in if t_state cur = TCP_SYN_RECV then cur\<lparr>t_state := TCP_ESTABLISHED\<rparr>
         else if t_state cur = TCP_ESTABLISHED then cur
         else if t_state cur = TCP_LAST_ACK then cur\<lparr>t_state := TCP_CLOSING\<rparr>
         else cur)"

definition tcp_other_ack :: "sys \<Rightarrow> u32 \<Rightarrow> tcp_session \<Rightarrow> trace \<Rightarrow> tcp_session \<times> trace" where
  "tcp_other_ack sys ack cur tr =
     (if ack + 1 = t_local_seq cur
      then if t_state cur = TCP_ESTABLISHED
           then (cur, tr @ [ESetsockopt (socket cur) ''SO_KEEPALIVE'']) else (cur, tr)
      else if compare_u32 ack (t_local_seq cur) < 0
      then if compare_u32 ack (t_acked cur) \<le> 0 then (cur, tr) else (cur\<lparr>t_acked := ack\<rparr>, tr)
      else write_rst sys cur tr)"

definition tcp_flags :: "sys \<Rightarrow> tcp_input \<Rightarrow> tcp_session \<Rightarrow> trace \<Rightarrow> tcp_session \<times> trace" where
  "tcp_flags sys p cur tr =
     (let h = ti_hdr p
      in if th_rst h then (cur\<lparr>t_state := TCP_CLOSING\<rparr>, tr)
         else if \<not> th_ack h \<or> ti_ack p = t_local_seq cur
         then if th_syn h then (cur, tr)
              else if th_fin h then tcp_fin sys cur tr
              else if th_ack h then (tcp_ack (ti_ack p) cur, tr)
              else (cur, tr)
         else tcp_other_ack sys (ti_ack p) cur tr)"

definition tcp_segment :: "sys \<Rightarrow> tcp_input \<Rightarrow> tcp_session \<Rightarrow> trace \<Rightarrow> (tcp_session \<times> trace) result" where
  "tcp_segment sys p cur tr =
     (let h = ti_hdr p;
          cur = cur\<lparr>t_time := sys_time sys tr,
                   t_send_window := push_bit (unat (t_send_scale cur)) (ucast (ntohs (th_window h)))\<rparr>;
          tr = tr @ [ETime]
      in if ti_datalen p \<noteq> 0
         then if socket cur < 0 then Inr (write_rst sys cur tr)
              else if t_state cur = TCP_CLOSE_WAIT then Inr (write_rst sys cur tr)
              else rbind (queue_tcp (ti_seq p) (th_psh h) cur (ti_data p) (ti_datalen p))
                     (\<lambda>cur. Inr (tcp_flags sys p cur tr))
         else Inr (tcp_flags sys p cur tr))"

definition tcp_found ::
  "sys \<Rightarrow> tcp_input \<Rightarrow> bytes \<Rightarrow> tcp_session \<Rightarrow> trace \<Rightarrow> (tcp_session \<times> trace) result" where
  "tcp_found sys p hostname cur tr =
     (let h = ti_hdr p; rport = htons (th_dest h)
      in rbind (if rport = 443 then tcp_proxy_connect sys hostname cur tr else Inr (cur, tr))
           (\<lambda>(cur, tr).
         if rport = 443 \<and> t_connect_sent cur \<noteq> TCP_CONNECT_ESTABLISHED
         then rbind (queue_tcp (ti_seq p) (th_psh h) cur (ti_data p) (ti_datalen p)) (\<lambda>cur. Inr (cur, tr))
         else if t_state cur = TCP_CLOSING \<or> t_state cur = TCP_CLOSE
         then Inr (write_rst sys cur tr)
         else tcp_segment sys p cur tr))"

text \<open>
  \<open>strcpy(redirect.raddr, args->proxyIp)\<close> copies up to 128 bytes into \<open>char raddr[INET6_ADDRSTRLEN + 1]\<close>.
\<close>

definition RADDR_SIZE :: nat where "RADDR_SIZE = 46 + 1"

text \<open>The result of \<open>handle_tcp\<close> is always 1; what it changes is the session list.\<close>

definition handle_tcp ::
  "sys \<Rightarrow> arguments \<Rightarrow> bytes \<Rightarrow> nat \<Rightarrow> nat \<Rightarrow> int \<Rightarrow> session list \<Rightarrow> trace \<Rightarrow> (session list \<times> trace) result" where
  "handle_tcp sys args pkt len off uid ss tr =
     rbind (parse_tcp pkt len off) (\<lambda>p.
     rbind (parse_tls_header (ti_data p) (unat (ti_datalen p)) []) (\<lambda>hostname.
       let h = ti_hdr p
       in if length (proxyIp args) + 1 > RADDR_SIZE then Inl OobWrite
          else if th_urg h then Inr (ss, tr)
          else case find_idx (tcp_matches p) ss of
            None \<Rightarrow> if th_syn h then tcp_syn sys args p uid ss tr
                    else Inr (ss, tcp_reject sys p tr)
          | Some i \<Rightarrow>
              (case ss ! i of
                 TCP cur \<Rightarrow> rbind (tcp_found sys p hostname cur tr)
                              (\<lambda>(cur, tr). Inr (ss[i := TCP cur], tr))
               | _ \<Rightarrow> Inr (ss, tr))))"


section \<open>The table of TCP sessions\<close>

type_synonym tcp_flow = "int \<times> u16 \<times> u16 \<times> bytes \<times> bytes"

definition tcp_key :: "session \<Rightarrow> tcp_flow option" where
  "tcp_key s = (case s of
      TCP c \<Rightarrow> Some (t_version c, t_source c, t_dest c,
        if t_version c = 4 then ip4 (t_saddr c) else t_saddr c,
        if t_version c = 4 then ip4 (t_daddr c) else t_daddr c)
    | _ \<Rightarrow> None)"

definition tcp_flow :: "tcp_input \<Rightarrow> tcp_flow" where
  "tcp_flow p = (ti_version p, th_source (ti_hdr p), th_dest (ti_hdr p), ti_saddr p, ti_daddr p)"

interpretation tcp_table: session_table tcp_matches tcp_flow tcp_key
  by unfold_locales
    (auto simp: tcp_matches_def tcp_key_def tcp_flow_def split: session.splits)

lemma tcp_key_ident: "tcp_ident c' = tcp_ident c \<Longrightarrow> tcp_key (TCP c') = tcp_key (TCP c)"
  by (simp add: tcp_key_def)

text \<open>The invariant of the session list: a session per flow at most, each in order.\<close>

definition tcp_sessions_inv :: "session list \<Rightarrow> bool" where
  "tcp_sessions_inv ss \<longleftrightarrow> distinct (tcp_table.keys ss) \<and> (\<forall>c. TCP c \<in> set ss \<longrightarrow> tcp_inv c)"

lemma tcp_sessions_inv_update:
  assumes "tcp_sessions_inv ss" "i < length ss" "ss ! i = TCP c" "tcp_inv c'" "tcp_ident c' = tcp_ident c"
  shows "tcp_sessions_inv (ss[i := TCP c'])"
proof -
  have "tcp_table.keys (ss[i := TCP c']) = tcp_table.keys ss"
    by (rule tcp_table.update_keys) (use assms(3,5) tcp_key_ident in metis)
  then show ?thesis
    using assms(1,4) set_update_subset_insert [of ss i "TCP c'"]
    by (auto simp: tcp_sessions_inv_def)
qed

section \<open>An open session\<close>

text \<open>\<open>send\<close> on a closed descriptor fails.\<close>

definition send_closed :: "sys \<Rightarrow> bool" where
  "send_closed sys \<longleftrightarrow> (\<forall>tr fd b. fd < 0 \<longrightarrow> fst (sys_send sys tr fd b) < 0)"

lemma tcp_rst_keeps:
  "write_rst sys cur tr = (cur', tr') \<Longrightarrow> tcp_inv cur \<Longrightarrow> tcp_keeps h cur cur'"
  by (auto dest!: write_rst_frame simp: tcp_keeps_def intro: tcp_path_abort)

lemma tcp_proxy_connect_keeps:
  assumes "tcp_proxy_connect sys hostname cur tr = Inr (cur', tr')" "tcp_inv cur" "send_closed sys"
  shows "tcp_keeps True cur cur' \<and> t_forward cur' = t_forward cur"
proof -
  define host where "host = (if hostname \<noteq> [] then hostname else lookup_hostname (ip4 (t_daddr cur)) 512)"
  define cur1 where "cur1 = (if host \<noteq> [] then cur\<lparr>t_hostname := host\<rparr> else cur)"
  have 1: "tcp_keeps True cur cur1" "t_forward cur1 = t_forward cur" "tcp_inv cur1"
    using assms(2) by (simp_all add: cur1_def tcp_keeps_def)
  let ?req = "connect_request (t_hostname cur1)"
  let ?tr = "tr @ [ESend (socket cur1) ?req False]"
  have "cur' = cur1 \<or> write_rst sys cur1 ?tr = (cur', tr') \<or>
      \<not> fst (sys_send sys tr (socket cur1) ?req) < 0 \<and>
      cur' = cur1\<lparr>t_connect_sent := TCP_CONNECT_SENT, t_state := TCP_LISTEN\<rparr>"
    using assms(1) unfolding tcp_proxy_connect_def Let_def host_def [symmetric] cur1_def [symmetric]
    by (auto split: if_splits prod.splits)
  then consider "cur' = cur1" | "write_rst sys cur1 ?tr = (cur', tr')"
    | "\<not> fst (sys_send sys tr (socket cur1) ?req) < 0"
      "cur' = cur1\<lparr>t_connect_sent := TCP_CONNECT_SENT, t_state := TCP_LISTEN\<rparr>" by blast
  then show ?thesis
  proof cases
    case 1
    with \<open>tcp_keeps True cur cur1\<close> \<open>t_forward cur1 = _\<close> show ?thesis by simp
  next
    case 2
    have "t_forward cur' = t_forward cur1" using 2 by (auto simp: write_rst_eq Let_def)
    then show ?thesis using tcp_rst_keeps [OF 2 1(3), of True] 1 by (auto intro: tcp_keeps_trans)
  next
    case 3
    then have "0 \<le> socket cur1" using assms(3) unfolding send_closed_def by (meson not_le)
    then have "tcp_keeps True cur1 cur'"
      using 3(2) 1(3) by (auto simp: tcp_keeps_def tcp_inv_def tcp_addrs_ok_def live_state_def
          intro: tcp_paths)
    then show ?thesis using 1 3(2) by (auto intro: tcp_keeps_trans)
  qed
qed

lemma queue_tcp_keeps:
  "queue_tcp seq psh cur data datalen = Inr cur' \<Longrightarrow> tcp_inv cur \<Longrightarrow>
   tcp_keeps h cur cur' \<and> t_state cur' = t_state cur"
  by (auto simp: queue_tcp_def rbind_eq_Inr tcp_keeps_def tcp_inv_def tcp_addrs_ok_def
      intro: queue_seg_inv split: if_splits)

lemma tcp_fin_keeps:
  assumes "tcp_fin sys cur tr = (cur', tr')" "tcp_inv cur" "t_state cur \<noteq> TCP_CLOSE"
  shows "tcp_keeps h cur cur'"
proof -
  let ?c = "cur\<lparr>t_remote_seq := t_remote_seq cur + 1\<rparr>"
  have "cur' = cur \<or> cur' = ?c\<lparr>t_state := TCP_CLOSING\<rparr> \<or>
      t_state cur = TCP_ESTABLISHED \<and> (cur' = ?c\<lparr>t_state := TCP_CLOSE_WAIT\<rparr> \<or>
        cur' = cur\<lparr>t_state := TCP_CLOSE_WAIT\<rparr>) \<or>
      t_state cur = TCP_FIN_WAIT1 \<and> cur' = ?c\<lparr>t_state := TCP_CLOSE\<rparr>"
    using assms(1) by (auto simp: tcp_fin_def ack.w_eq Let_def split: if_splits)
  then show ?thesis
    using assms(2,3) by (auto simp: tcp_keeps_def tcp_inv_def tcp_addrs_ok_def live_state_def
        dead_state_def intro: tcp_paths tcp_path_abort)
qed

lemma tcp_ack_keeps: "tcp_inv cur \<Longrightarrow> tcp_keeps h cur (tcp_ack ack cur)"
  by (auto simp: tcp_ack_def Let_def tcp_keeps_def tcp_inv_def tcp_addrs_ok_def live_state_def
      dead_state_def intro: tcp_paths)

lemma tcp_other_ack_keeps:
  "tcp_other_ack sys ack cur tr = (cur', tr') \<Longrightarrow> tcp_inv cur \<Longrightarrow> tcp_keeps h cur cur'"
  by (auto simp: tcp_other_ack_def tcp_keeps_def split: if_splits
      dest!: tcp_rst_keeps [where h = h, unfolded tcp_keeps_def])

lemma tcp_flags_keeps:
  assumes "tcp_flags sys p cur tr = (cur', tr')" "tcp_inv cur" "t_state cur \<noteq> TCP_CLOSE"
  shows "tcp_keeps h cur cur'"
proof -
  have "tcp_keeps h cur (cur\<lparr>t_state := TCP_CLOSING\<rparr>)"
    using assms(2,3) by (simp add: tcp_keeps_def tcp_path_abort)
  then show ?thesis
    using assms tcp_fin_keeps [of sys cur tr cur' tr' h] tcp_ack_keeps [OF assms(2), of h "ti_ack p"]
      tcp_other_ack_keeps [of sys "ti_ack p" cur tr cur' tr' h]
    by (auto simp: tcp_flags_def Let_def split: if_splits)
qed


lemma tcp_segment_keeps:
  assumes "tcp_segment sys p cur tr = Inr (cur', tr')" "tcp_inv cur" "t_state cur \<noteq> TCP_CLOSE"
  shows "tcp_keeps h cur cur'"
proof -
  let ?c = "cur\<lparr>t_time := sys_time sys tr, t_send_window :=
      push_bit (unat (t_send_scale cur)) (ucast (ntohs (th_window (ti_hdr p))))\<rparr>"
  let ?tr = "tr @ [ETime]"
  have c: "tcp_keeps h cur ?c" "tcp_inv ?c" "t_state ?c \<noteq> TCP_CLOSE"
    using assms(2,3) by (simp_all add: tcp_keeps_def)
  have "write_rst sys ?c ?tr = (cur', tr') \<or> tcp_flags sys p ?c ?tr = (cur', tr') \<or>
      (\<exists>c2. queue_tcp (ti_seq p) (th_psh (ti_hdr p)) ?c (ti_data p) (ti_datalen p) = Inr c2 \<and>
        tcp_flags sys p c2 ?tr = (cur', tr'))"
    using assms(1) by (auto simp: tcp_segment_def Let_def rbind_eq_Inr split: if_splits)
  then consider "write_rst sys ?c ?tr = (cur', tr')" | "tcp_flags sys p ?c ?tr = (cur', tr')"
    | c2 where "queue_tcp (ti_seq p) (th_psh (ti_hdr p)) ?c (ti_data p) (ti_datalen p) = Inr c2"
        "tcp_flags sys p c2 ?tr = (cur', tr')" by blast
  then have "tcp_keeps h ?c cur'"
  proof cases
    case (3 c2)
    have "tcp_keeps h ?c c2 \<and> t_state c2 = t_state ?c" by (rule queue_tcp_keeps [OF 3(1) c(2)])
    moreover from this have "tcp_keeps h c2 cur'"
      using tcp_flags_keeps [OF 3(2)] c(3) by (auto simp: tcp_keeps_def)
    ultimately show ?thesis by (blast intro: tcp_keeps_trans)
  qed (use tcp_rst_keeps tcp_flags_keeps c in blast)+
  with c(1) show ?thesis by (rule tcp_keeps_trans)
qed

lemma tcp_found_keeps:
  assumes "tcp_found sys p hostname cur tr = Inr (cur', tr')" "tcp_inv cur" "send_closed sys"
  shows "tcp_keeps (htons (th_dest (ti_hdr p)) = 443) cur cur'"
proof -
  let ?https = "htons (th_dest (ti_hdr p)) = 443"
  obtain c1 tr1 where c1: "(if ?https then tcp_proxy_connect sys hostname cur tr else Inr (cur, tr)) = Inr (c1, tr1)"
    and rest: "(if ?https \<and> t_connect_sent c1 \<noteq> TCP_CONNECT_ESTABLISHED
         then rbind (queue_tcp (ti_seq p) (th_psh (ti_hdr p)) c1 (ti_data p) (ti_datalen p)) (\<lambda>c. Inr (c, tr1))
         else if t_state c1 = TCP_CLOSING \<or> t_state c1 = TCP_CLOSE then Inr (write_rst sys c1 tr1)
         else tcp_segment sys p c1 tr1) = Inr (cur', tr')"
    using assms(1) unfolding tcp_found_def Let_def rbind_eq_Inr by auto
  have keeps: "tcp_keeps ?https cur c1"
    using c1 assms(2) tcp_proxy_connect_keeps [OF _ assms(2,3)] by (auto split: if_splits)
  then have inv: "tcp_inv c1" by (simp add: tcp_keeps_def)
  have "tcp_keeps ?https c1 cur'"
    using rest queue_tcp_keeps [OF _ inv] tcp_rst_keeps [OF _ inv] tcp_segment_keeps [OF _ inv]
    by (auto simp: rbind_eq_Inr split: if_splits)
  with keeps show ?thesis by (rule tcp_keeps_trans)
qed

section \<open>A new session\<close>

lemma parse_tcp_addrs:
  assumes "parse_tcp pkt len off = Inr p"
  shows "addr_ok (ti_version p) (ti_saddr p) \<and> addr_ok (ti_version p) (ti_daddr p) \<and>
    (ti_version p = 4 \<longrightarrow> length (ti_saddr p) = 4 \<and> length (ti_daddr p) = 4)"
proof -
  have "(if ti_version p = 4 then rbind (load_iphdr pkt) (\<lambda>ip. Inr (ip_saddr ip, ip_daddr ip))
      else rbind (load_ip6_hdr pkt) (\<lambda>ip. Inr (ip6_src ip, ip6_dst ip))) = Inr (ti_saddr p, ti_daddr p)"
    using assms unfolding parse_tcp_def rbind_eq_Inr Let_def by fastforce
  then show ?thesis
    by (cases "ti_version p = 4")
      (auto simp: rbind_eq_Inr addr_ok_def dest: load_iphdr_addrs load_ip6_hdr_addrs)
qed

lemma SYN_data_inv: "SYN_data p = Inr fwd \<Longrightarrow> queue_inv fwd"
  by (auto simp: SYN_data_def rbind_eq_Inr rd_bytes_eq_Inr queue_inv_Cons seg_ok_new split: if_splits)

lemma open_tcp_socket_pos: "open_tcp_socket sys args cur tr = (fd, tr') \<Longrightarrow> fd < 0 \<or> 0 \<le> fd"
  by linarith

text \<open>A SYN either leaves the table as it was or adds one session, in \<open>LISTEN\<close>, for its flow.\<close>

lemma tcp_syn_cases:
  assumes "tcp_syn sys args p uid ss tr = Inr (ss', tr')" "parse_tcp pkt len off = Inr p"
  shows "ss' = ss \<or> (\<exists>c. ss' = TCP c # ss \<and> tcp_inv c \<and> tcp_key (TCP c) = Some (tcp_flow p)
    \<and> t_state c = TCP_LISTEN \<and> t_remote_seq c = ti_seq p \<and> SYN_data p = Inr (t_forward c))"
proof -
  obtain mw fwd where o': "tcp_options_in (ti_options p) (ti_optlen p) (get_default_mss (ti_version p)) = Inr mw"
    and f: "SYN_data p = Inr fwd"
    using assms(1) by (auto simp: tcp_syn_def rbind_eq_Inr)
  obtain s tr1 where s: "tcp_new_session sys p uid mw fwd tr = (s, tr1)" by fastforce
  obtain sock tr2 where op: "open_tcp_socket sys args s tr1 = (sock, tr2)" by fastforce
  obtain w tr3 where w: "get_receive_window sys (s\<lparr>socket := sock\<rparr>) tr2 = (w, tr3)" by fastforce
  have "ss' = ss \<or> 0 \<le> sock \<and> ss' = TCP (s\<lparr>socket := sock, t_recv_window := w,
      events := EPOLLOUT OR EPOLLERR\<rparr>) # ss"
    using assms(1) by (auto simp: tcp_syn_def o' f s op w Let_def split: if_splits)
  moreover have "t_version s = ti_version p" "t_saddr s = ti_saddr p" "t_daddr s = ti_daddr p"
    "t_source s = th_source (ti_hdr p)" "t_dest s = th_dest (ti_hdr p)" "t_state s = TCP_LISTEN"
    "t_forward s = fwd" "t_remote_seq s = ti_seq p"
    using s by (auto simp: tcp_new_session_def Let_def case_prod_beta)
  ultimately show ?thesis
    using parse_tcp_addrs [OF assms(2)] SYN_data_inv [OF f] f
    by (auto simp: tcp_inv_def tcp_addrs_ok_def live_state_def tcp_key_def tcp_flow_def ip4_def)
qed

section \<open>handle_tcp\<close>

text \<open>The three things a packet can do to the table.\<close>

lemma handle_tcp_cases:
  assumes "handle_tcp sys args pkt len off uid ss tr = Inr (ss', tr')"
  obtains (same) "ss' = ss"
  | (new) p c where "parse_tcp pkt len off = Inr p" "find_idx (tcp_matches p) ss = None"
      "ss' = TCP c # ss" "tcp_inv c" "tcp_key (TCP c) = Some (tcp_flow p)" "t_state c = TCP_LISTEN"
  | (found) p hostname i c c' where "parse_tcp pkt len off = Inr p"
      "find_idx (tcp_matches p) ss = Some i" "ss ! i = TCP c" "ss' = ss[i := TCP c']"
      "tcp_found sys p hostname c tr = Inr (c', tr')"
proof -
  obtain p hostname where p: "parse_tcp pkt len off = Inr p"
    and r: "(if length (proxyIp args) + 1 > RADDR_SIZE then Inl OobWrite
          else if th_urg (ti_hdr p) then Inr (ss, tr)
          else case find_idx (tcp_matches p) ss of
            None \<Rightarrow> if th_syn (ti_hdr p) then tcp_syn sys args p uid ss tr
                    else Inr (ss, tcp_reject sys p tr)
          | Some i \<Rightarrow>
              (case ss ! i of
                 TCP cur \<Rightarrow> rbind (tcp_found sys p hostname cur tr)
                              (\<lambda>(cur, tr). Inr (ss[i := TCP cur], tr))
               | _ \<Rightarrow> Inr (ss, tr))) = Inr (ss', tr')"
    using assms unfolding handle_tcp_def Let_def rbind_eq_Inr by blast
  show ?thesis
  proof (cases "find_idx (tcp_matches p) ss")
    case None
    then have "ss' = ss \<or> tcp_syn sys args p uid ss tr = Inr (ss', tr')"
      using r by (auto split: if_splits)
    then show ?thesis using tcp_syn_cases [OF _ p] None p same new by metis
  next
    case (Some i)
    then have "ss' = ss \<or> (\<exists>c c'. ss ! i = TCP c \<and> ss' = ss[i := TCP c'] \<and>
        tcp_found sys p hostname c tr = Inr (c', tr'))"
      using r by (auto simp: rbind_eq_Inr split: if_splits session.splits)
    then show ?thesis using Some p same found by metis
  qed
qed

lemma handle_tcp_sessions:
  assumes "tcp_sessions_inv ss" "send_closed sys"
    and "handle_tcp sys args pkt len off uid ss tr = Inr (ss', tr')"
  shows "tcp_sessions_inv ss'"
  using assms(3)
proof (cases rule: handle_tcp_cases)
  case (new p c)
  then show ?thesis
    using assms(1) tcp_table.register_distinct [of ss p "TCP c"]
    by (auto simp: tcp_sessions_inv_def simp del: tcp_table.keys_simps)
next
  case (found p hostname i c c')
  then have "i < length ss" by (simp add: find_idx_Some)
  moreover from this found have "tcp_inv c"
    using assms(1) unfolding tcp_sessions_inv_def by (metis nth_mem)
  ultimately show ?thesis
    using found(3,4) tcp_found_keeps [OF found(5) _ assms(2)] tcp_sessions_inv_update [OF assms(1)]
    unfolding tcp_keeps_def by blast
qed (use assms(1) in simp)

lemma handle_tcp_local:
  "handle_tcp sys args pkt len off uid ss tr = Inr (ss', tr') \<Longrightarrow> local_change is_TCP ss ss'"
  by (erule handle_tcp_cases) (auto simp: find_idx_Some intro: local_change_add local_change_update)

text \<open>
  Whatever bytes the client sends and whatever the system calls answer, a TCP packet keeps the
  invariant of the session list: at most one session per flow (version, ports and addresses), every
  queue in order, a socket exactly for the sessions that still talk to the remote.
\<close>

theorem handle_tcp_inv:
  assumes "tcp_sessions_inv ss" "send_closed sys"
    and "handle_tcp sys args pkt len off uid ss tr = Inr (ss', tr')"
  shows "tcp_sessions_inv ss'"
  by (rule handle_tcp_sessions [OF assms])


section \<open>The reset of a stray packet\<close>

lemma tcp_reject_eq:
  assumes "addr_ok (ti_version p) (ti_saddr p)" "addr_ok (ti_version p) (ti_daddr p)"
  shows "\<exists>rst. tcp_reject sys p tr = tr @ [ETunWrite (tcp_packet rst [] False False False True)]
    \<and> t_version rst = 4 \<and> t_local_seq rst = ti_ack p \<and> t_source rst = th_source (ti_hdr p)
    \<and> t_dest rst = th_dest (ti_hdr p) \<and> ip4 (t_saddr rst) = ip4 (ti_saddr p)
    \<and> ip4 (t_daddr rst) = ip4 (ti_daddr p) \<and> tcp_addrs_ok rst"
proof -
  define pad where "pad a = (if ti_version p = 4 then a @ replicate 12 (0::byte) else a)" for a
  let ?rst = "zero_tcp_session\<lparr>t_version := 4, t_local_seq := ti_ack p,
    t_remote_seq := ti_seq p + ucast (ti_datalen p) + (if th_syn (ti_hdr p) \<or> th_fin (ti_hdr p) then 1 else 0),
    t_saddr := pad (ti_saddr p), t_daddr := pad (ti_daddr p),
    t_source := th_source (ti_hdr p), t_dest := th_dest (ti_hdr p)\<rparr>"
  have "tcp_reject sys p tr = tr @ [ETunWrite (tcp_packet ?rst [] False False False True)]"
    by (simp add: tcp_reject_def Let_def write_rst_eq pad_def zero_tcp_session_def cong: if_cong)
  moreover have "ip4 (pad (ti_saddr p)) = ip4 (ti_saddr p)" "ip4 (pad (ti_daddr p)) = ip4 (ti_daddr p)"
    using assms by (simp_all add: pad_def ip4_def addr_ok_def)
  moreover have "tcp_addrs_ok ?rst"
    using assms by (auto simp: pad_def addr_ok_def tcp_addrs_ok_def split: if_splits)
  ultimately show ?thesis by (intro exI [of _ ?rst]) simp
qed

text \<open>
  A packet that is neither a SYN nor of a known session changes no session and is answered by
  one packet. On IPv4 that is a RST without ACK from the packet's destination to its source, with
  the sequence number RFC 793 asks for: the acknowledgement number the client sent.
\<close>

theorem stray_packet_is_reset:
  assumes "parse_tcp pkt len off = Inr p" "ti_version p = 4"
    and "parse_tls_header (ti_data p) (unat (ti_datalen p)) [] = Inr hostname"
    and "\<forall>s \<in> set ss. \<not> tcp_matches p s" "\<not> th_syn (ti_hdr p)" "\<not> th_urg (ti_hdr p)"
    and "length (proxyIp args) \<le> 46"
  shows "\<exists>b ip th. handle_tcp sys args pkt len off uid ss tr = Inr (ss, tr @ [ETunWrite b])
    \<and> load_iphdr b = Inr ip \<and> load_tcphdr (drop 20 b) = Inr th
    \<and> ip_saddr ip = ti_daddr p \<and> ip_daddr ip = ti_saddr p
    \<and> th_source th = th_dest (ti_hdr p) \<and> th_dest th = th_source (ti_hdr p)
    \<and> th_rst th \<and> \<not> th_ack th \<and> \<not> th_syn th \<and> \<not> th_fin th \<and> ntohl (th_seq th) = ti_ack p"
proof -
  have a: "addr_ok (ti_version p) (ti_saddr p)" "addr_ok (ti_version p) (ti_daddr p)"
    and l: "length (ti_saddr p) = 4" "length (ti_daddr p) = 4"
    using parse_tcp_addrs [OF assms(1)] assms(2) by auto
  obtain rst where r: "tcp_reject sys p tr = tr @ [ETunWrite (tcp_packet rst [] False False False True)]"
    "t_version rst = 4" "t_local_seq rst = ti_ack p" "t_source rst = th_source (ti_hdr p)"
    "t_dest rst = th_dest (ti_hdr p)" "ip4 (t_saddr rst) = ti_saddr p" "ip4 (t_daddr rst) = ti_daddr p"
    "tcp_addrs_ok rst"
    using tcp_reject_eq [OF a, of sys tr] l by (auto simp: ip4_def)
  have h: "handle_tcp sys args pkt len off uid ss tr = Inr (ss, tcp_reject sys p tr)"
    using assms by (simp add: handle_tcp_def Let_def find_idx_None [THEN iffD2] RADDR_SIZE_def)
  obtain ip where ip: "load_iphdr (tcp_packet rst [] False False False True) = Inr ip"
    "ip_saddr ip = ti_daddr p" "ip_daddr ip = ti_saddr p"
    using tcp4_packet_loads [OF r(2,8), of "[]" False False False True] r by auto
  have "load_tcphdr (drop 20 (tcp_packet rst [] False False False True))
      = Inr (tcp_filled rst [] False False False True)"
    using load_tcp_packet [OF r(8)] r(2) by (simp add: ip_hdr_len_def)
  then show ?thesis
    using h r ip by (intro exI [of _ "tcp_packet rst [] False False False True"] exI [of _ ip]
        exI [of _ "tcp_filled rst [] False False False True"]) (simp add: tcp_filled_fields)
qed

text \<open>
  For a packet that is not IPv4 the reset is still an IPv4 packet (\<open>rst.version = 4\<close>), to the
  first four bytes of the client's address: an IPv6 client never sees it.
\<close>

theorem stray_ipv6_packet_gets_ipv4_reset:
  assumes "parse_tcp pkt len off = Inr p" "ti_version p \<noteq> 4"
    and "parse_tls_header (ti_data p) (unat (ti_datalen p)) [] = Inr hostname"
    and "\<forall>s \<in> set ss. \<not> tcp_matches p s" "\<not> th_syn (ti_hdr p)" "\<not> th_urg (ti_hdr p)"
    and "length (proxyIp args) \<le> 46"
  shows "\<exists>b ip. handle_tcp sys args pkt len off uid ss tr = Inr (ss, tr @ [ETunWrite b])
    \<and> load_iphdr b = Inr ip \<and> ip_version ip = 4 \<and> ip_daddr ip = take 4 (ti_saddr p)"
proof -
  have a: "addr_ok (ti_version p) (ti_saddr p)" "addr_ok (ti_version p) (ti_daddr p)"
    using parse_tcp_addrs [OF assms(1)] by auto
  obtain rst where r: "tcp_reject sys p tr = tr @ [ETunWrite (tcp_packet rst [] False False False True)]"
    "t_version rst = 4" "ip4 (t_saddr rst) = ip4 (ti_saddr p)" "tcp_addrs_ok rst"
    using tcp_reject_eq [OF a, of sys tr] by auto
  have h: "handle_tcp sys args pkt len off uid ss tr = Inr (ss, tcp_reject sys p tr)"
    using assms by (simp add: handle_tcp_def Let_def find_idx_None [THEN iffD2] RADDR_SIZE_def)
  show ?thesis
    using tcp4_packet_loads [OF r(2,4), of "[]" False False False True] h r by (auto simp: ip4_def)
qed


section \<open>Example packets\<close>

text \<open>10.0.0.2:12345 to 1.2.3.4:8080 with the given flag byte; seq 1, ack 2, no options, no data.\<close>

definition sample_packet4 :: "byte \<Rightarrow> bytes" where
  "sample_packet4 flags = [0x45, 0, 0, 40, 0, 0, 0, 0, 64, 6, 0, 0, 10, 0, 0, 2, 1, 2, 3, 4,
     0x30, 0x39, 0x1F, 0x90, 0, 0, 0, 1, 0, 0, 0, 2, 0x50, flags, 0xFF, 0xFF, 0, 0, 0, 0]"

definition sample_packet6 :: "byte \<Rightarrow> bytes" where
  "sample_packet6 flags = [0x60, 0, 0, 0, 0, 20, 6, 64] @ replicate 15 0 @ [2] @ replicate 15 0 @ [1] @
     [0x30, 0x39, 0x1F, 0x90, 0, 0, 0, 1, 0, 0, 0, 2, 0x50, flags, 0xFF, 0xFF, 0, 0, 0, 0]"

definition sample_input :: "int \<Rightarrow> bytes \<Rightarrow> bytes \<Rightarrow> byte \<Rightarrow> tcp_input" where
  "sample_input v saddr daddr flags = \<lparr>ti_version = v, ti_saddr = saddr, ti_daddr = daddr,
     ti_hdr = decode_tcphdr [0x30, 0x39, 0x1F, 0x90, 0, 0, 0, 1, 0, 0, 0, 2, 0x50, flags, 0xFF, 0xFF, 0, 0, 0, 0],
     ti_optlen = 0, ti_options = [], ti_data = [], ti_datalen = 0\<rparr>"

lemma parse_sample_packet4:
  "parse_tcp (sample_packet4 flags) 40 20 = Inr (sample_input 4 [10, 0, 0, 2] [1, 2, 3, 4] flags)"
  by (simp add: parse_tcp_def sample_packet4_def sample_input_def load_tcphdr_def load_iphdr_def
      decode_iphdr_def Let_def rd_def) (simp add: decode_tcphdr_def)

lemma parse_sample_packet6:
  "parse_tcp (sample_packet6 flags) 60 40
     = Inr (sample_input 6 (replicate 15 0 @ [2]) (replicate 15 0 @ [1]) flags)"
  by (simp add: parse_tcp_def sample_packet6_def sample_input_def load_tcphdr_def load_ip6_hdr_def
      decode_ip6_hdr_def Let_def rd_def) (simp add: decode_tcphdr_def)

lemma sample_input_tls: "parse_tls_header (ti_data (sample_input v s d f)) (unat (ti_datalen (sample_input v s d f))) [] = Inr []"
  by (simp add: sample_input_def parse_tls_header_def TLS_HEADER_LEN_def)

lemma sample_input_flags:
  "th_syn (ti_hdr (sample_input v s d f)) = bit f 1" "th_urg (ti_hdr (sample_input v s d f)) = bit f 5"
  "ti_version (sample_input v s d f) = v" "ti_saddr (sample_input v s d f) = s"
  by (simp_all add: sample_input_def decode_tcphdr_def)

theorem stray_packet_is_reset_witness:
  "\<exists>b th. handle_tcp calm_sys sample_args (sample_packet4 0x10) 40 20 0 [] [] = Inr ([], [ETunWrite b])
    \<and> load_tcphdr (drop 20 b) = Inr th \<and> th_rst th \<and> ntohl (th_seq th) = 2"
proof -
  have "ti_ack (sample_input 4 [10, 0, 0, 2] [1, 2, 3, 4] 0x10) = 2"
    by (simp add: sample_input_def decode_tcphdr_def ld32_def ntohl_def)
  then show ?thesis
    using stray_packet_is_reset [OF parse_sample_packet4 [of "0x10"] _ sample_input_tls, of "[]" sample_args calm_sys 0 "[]"]
    by (auto simp: sample_input_flags bit_numeral_rec sample_args_ok)
qed

theorem stray_ipv6_packet_gets_ipv4_reset_witness:
  "\<exists>b ip. handle_tcp calm_sys sample_args (sample_packet6 0x10) 60 40 0 [] [] = Inr ([], [ETunWrite b])
    \<and> load_iphdr b = Inr ip \<and> ip_version ip = 4"
  using stray_ipv6_packet_gets_ipv4_reset [OF parse_sample_packet6 [of "0x10"] _ sample_input_tls, of "[]" sample_args calm_sys 0 "[]"]
  by (auto simp: sample_input_flags bit_numeral_rec sample_args_ok)

text \<open>The SYN of the example opens a session.\<close>

lemma handle_sample_syn:
  "\<exists>c tr'. handle_tcp calm_sys sample_args (sample_packet4 0x02) 40 20 0 [] [] = Inr ([TCP c], tr')"
proof -
  let ?p = "sample_input 4 [10, 0, 0, 2] [1, 2, 3, 4] 0x02"
  have o': "tcp_options_in (ti_options ?p) (ti_optlen ?p) m = Inr (m, 0)" for m
    by (simp add: sample_input_def tcp_options_in_def tcp_option_loop.simps)
  have d: "SYN_data ?p = Inr []" by (simp add: SYN_data_def sample_input_def)
  obtain c tr' where "tcp_syn calm_sys sample_args ?p 0 [] [] = Inr ([TCP c], tr')"
    by (simp add: tcp_syn_def o' d Let_def case_prod_beta open_tcp_socket_def tcp_new_session_def)
  then show ?thesis
    using sample_input_tls [of 4 "[10, 0, 0, 2]" "[1, 2, 3, 4]" 2]
    using sample_args_ok
    by (simp add: handle_tcp_def parse_sample_packet4 Let_def sample_input_flags bit_numeral_rec RADDR_SIZE_def)
qed

theorem handle_tcp_inv_witness:
  "\<exists>c tr'. handle_tcp calm_sys sample_args (sample_packet4 0x02) 40 20 0 [] [] = Inr ([TCP c], tr')
     \<and> tcp_sessions_inv [TCP c]"
proof -
  have "tcp_sessions_inv []" "send_closed calm_sys"
    by (simp_all add: tcp_sessions_inv_def send_closed_def)
  then show ?thesis using handle_tcp_inv handle_sample_syn by metis
qed



section \<open>The CONNECT request fits its buffer\<close>

lemma dec_byte_bounds: "dec_byte b \<noteq> []" "length (dec_byte b) \<le> 3"
  by (simp_all add: dec_byte_def Let_def)

lemma inet_ntoa_bounds: "inet_ntoa a \<noteq> []" "length (inet_ntoa a) \<le> 15"
  using dec_byte_bounds(2) [of "a ! 0"] dec_byte_bounds(2) [of "a ! 1"]
    dec_byte_bounds(2) [of "a ! 2"] dec_byte_bounds(2) [of "a ! 3"]
  by (simp_all add: inet_ntoa_def)

lemma lookup_hostname_512: "lookup_hostname a 512 = inet_ntoa a"
  using inet_ntoa_bounds(2) [of a] by (simp add: lookup_hostname_def)

lemma length_connect_request [simp, len_simps]: "length (connect_request h) = length h + 25"
  by (simp add: connect_request_def cstr_def)

definition proxy_host :: "bytes \<Rightarrow> tcp_session \<Rightarrow> bytes" where
  "proxy_host hostname cur = (if hostname \<noteq> [] then hostname else inet_ntoa (ip4 (t_daddr cur)))"

lemma tcp_proxy_connect_eq:
  assumes "length hostname \<le> 255"
  shows "tcp_proxy_connect sys hostname cur tr =
    (let c = cur\<lparr>t_hostname := proxy_host hostname cur\<rparr>;
         req = connect_request (proxy_host hostname cur);
         tr' = tr @ [ESend (socket cur) req False]
     in Inr (if t_connect_sent cur = TCP_CONNECT_NOT_SENT
             then if fst (sys_send sys tr (socket cur) req) < 0 then write_rst sys c tr'
                  else (c\<lparr>t_connect_sent := TCP_CONNECT_SENT, t_state := TCP_LISTEN\<rparr>, tr')
             else (c, tr)))"
proof -
  have h: "proxy_host hostname cur \<noteq> []" "length (proxy_host hostname cur) \<le> 255"
    using assms inet_ntoa_bounds [of "ip4 (t_daddr cur)"] by (simp_all add: proxy_host_def)
  then show ?thesis
    unfolding tcp_proxy_connect_def Let_def lookup_hostname_512 proxy_host_def [symmetric]
    by (simp add: case_prod_beta)
qed

text \<open>
  C38: The CONNECT request always fits its 512 byte buffer, whatever the client hello says: with the
  name the TLS parser extracted (or, without one, the destination address) the step sends exactly the
  request for that host, once, and the session waits in \<open>LISTEN\<close> for the proxy's answer.
\<close>

theorem connect_request_fits:
  assumes "unat datalen \<le> length data" "t_connect_sent cur = TCP_CONNECT_NOT_SENT"
    and "0 \<le> fst (sys_send sys tr (socket cur) (connect_request (proxy_host hostname cur)))"
    and "parse_tls_header data (unat datalen) [] = Inr hostname"
  shows "length (connect_request (proxy_host hostname cur)) < 512
    \<and> tcp_proxy_connect sys hostname cur tr =
        Inr (cur\<lparr>t_hostname := proxy_host hostname cur, t_connect_sent := TCP_CONNECT_SENT,
                 t_state := TCP_LISTEN\<rparr>,
             tr @ [ESend (socket cur) (connect_request (proxy_host hostname cur)) False])"
proof -
  have "length hostname \<le> 255"
    using parse_tls_header_sni_result [OF assms(1), of "[]"] assms(4)
    by (auto simp: sni_result_def FQDN_MAX_def)
  moreover from this have "length (proxy_host hostname cur) \<le> 255"
    using inet_ntoa_bounds [of "ip4 (t_daddr cur)"] by (simp add: proxy_host_def)
  ultimately show ?thesis using assms(2,3) by (simp add: tcp_proxy_connect_eq Let_def)
qed

theorem connect_request_fits_witness:
  "tcp_proxy_connect calm_sys [] ((sample_session TCP_SYN_RECV)\<lparr>t_daddr := [1, 2, 3, 40]\<rparr>) [] =
    Inr ((sample_session TCP_SYN_RECV)\<lparr>t_daddr := [1, 2, 3, 40], t_hostname := cstr ''1.2.3.40'',
       t_connect_sent := TCP_CONNECT_SENT, t_state := TCP_LISTEN\<rparr>,
     [ESend 7 (cstr ''CONNECT 1.2.3.40:443 HTTP/1.0'' @ [13, 10, 13, 10]) False])"
proof -
  let ?s = "(sample_session TCP_SYN_RECV)\<lparr>t_daddr := [1, 2, 3, 40]\<rparr>"
  have s: "t_connect_sent ?s = TCP_CONNECT_NOT_SENT" "socket ?s = 7" "t_daddr ?s = [1, 2, 3, 40]"
    by (simp_all add: sample_session_def zero_tcp_session_def)
  have h: "proxy_host [] ?s = cstr ''1.2.3.40''"
    by (simp add: proxy_host_def s(3) ip4_def inet_ntoa_def dec_byte_def cstr_def del: sample_session_simps)
  show ?thesis
    using connect_request_fits [of 0 "[]" ?s calm_sys "[]" "[]"] s
    by (simp add: parse_tls_header_def TLS_HEADER_LEN_def h) (simp add: connect_request_def cstr_def)
qed

section \<open>No fault on well-formed packets\<close>

lemma parse_tcp_wf:
  assumes "if unat (drop_bit 4 (pkt ! 0)) = 4 then 20 \<le> off else 40 \<le> off"
    and "off + 20 \<le> len" "len \<le> length pkt" "len < 65536"
    and "5 \<le> unat (th_doff (decode_tcphdr (take 20 (drop off pkt))))"
    and "off + 4 * unat (th_doff (decode_tcphdr (take 20 (drop off pkt)))) \<le> len"
  shows "\<exists>p. parse_tcp pkt len off = Inr p \<and> ti_hdr p = decode_tcphdr (take 20 (drop off pkt))
    \<and> unat (ti_datalen p) = len - off - 4 * unat (th_doff (ti_hdr p))
    \<and> ti_data p = drop (off + 4 * unat (th_doff (ti_hdr p))) pkt"
proof -
  define version where "version = int (unat (drop_bit 4 (pkt ! 0)))"
  define th where "th = decode_tcphdr (take 20 (drop off pkt))"
  have load: "load_tcphdr (drop off pkt) = Inr th"
    using assms(2,3) by (simp add: load_tcphdr_def th_def)
  define optlen :: byte where "optlen = word_of_int ((int (unat (th_doff th)) - 5) * 4)"
  have d: "5 \<le> unat (th_doff th)" "unat (th_doff th) < 16"
  proof -
    show "5 \<le> unat (th_doff th)" using assms(5) by (simp add: th_def)
    show "unat (th_doff th) < 16"
      by (simp add: th_def decode_tcphdr_def unat_high_nibble)
  qed
  have "(int n - 5) * 4 = int (4 * n - 20)" if "5 \<le> n" for n
    using that by simp
  from this [OF d(1)] have "(int (unat (th_doff th)) - 5) * 4 = int (4 * unat (th_doff th) - 20)" .
  then have "optlen = of_nat (4 * unat (th_doff th) - 20)"
    unfolding optlen_def by (simp only: of_int_of_nat_eq)
  moreover have "unat (of_nat (4 * unat (th_doff th) - 20) :: byte) = 4 * unat (th_doff th) - 20"
    using d(2) by (subst unsigned_of_nat, subst take_bit_nat_eq_self) simp_all
  ultimately have "unat optlen = 4 * unat (th_doff th) - 20" by (simp only:)
  then have opt: "20 + unat optlen = 4 * unat (th_doff th)"
    using d(1) by linarith
  let ?n = "len - (off + 4 * unat (th_doff th))"
  have n: "unat (word_of_int (int len - int (off + 4 * unat (th_doff th))) :: u16) = ?n"
    using assms(4,6) unfolding th_def by (rule unat_u16_diff [rotated])
  have hdr: "20 \<le> length pkt" "version \<noteq> 4 \<longrightarrow> 40 \<le> length pkt"
    using assms(1,2,3) by (auto simp: version_def split: if_splits)
  have "rd pkt 0 = Inr (pkt ! 0)" by (rule rd_in) (use hdr(1) in linarith)
  then have "\<exists>sa da. parse_tcp pkt len off = Inr \<lparr>ti_version = version, ti_saddr = sa, ti_daddr = da,
      ti_hdr = th, ti_optlen = optlen, ti_options = drop (off + 20) pkt,
      ti_data = drop (off + (20 + unat optlen)) pkt,
      ti_datalen = word_of_int (int len - int (off + (20 + unat optlen)))\<rparr>"
    using hdr by (simp only: parse_tcp_def rbind_Inr load Let_def flip: version_def optlen_def)
      (simp add: load_iphdr_def load_ip6_hdr_def add.assoc)
  then obtain sa da where "parse_tcp pkt len off = Inr \<lparr>ti_version = version, ti_saddr = sa, ti_daddr = da,
      ti_hdr = th, ti_optlen = optlen, ti_options = drop (off + 20) pkt,
      ti_data = drop (off + 4 * unat (th_doff th)) pkt,
      ti_datalen = word_of_int (int len - int (off + 4 * unat (th_doff th)))\<rparr>"
    unfolding opt by blast
  then show ?thesis using n by (simp only: th_def [symmetric]) simp
qed


lemma tcp_segment_total:
  assumes "unat (ti_datalen p) \<le> length (ti_data p)"
  shows "\<exists>r. tcp_segment sys p cur tr = Inr r"
  using queue_seg_total [OF assms]
  by (auto simp: tcp_segment_def Let_def queue_tcp_def rbind_def split: sum.split)
    (metis Inl_Inr_False)

lemma tcp_found_total:
  assumes "unat (ti_datalen p) \<le> length (ti_data p)" "length hostname \<le> 255"
  shows "\<exists>r. tcp_found sys p hostname cur tr = Inr r"
proof -
  have q: "\<exists>c'. queue_tcp seq psh c (ti_data p) (ti_datalen p) = Inr c'" for seq psh c
    using queue_seg_total [OF assms(1), of seq psh "t_forward c"]
    by (auto simp: queue_tcp_def)
  have "\<exists>r. (if htons (th_dest (ti_hdr p)) = 443
      then tcp_proxy_connect sys hostname cur tr else Inr (cur, tr)) = Inr r"
    using tcp_proxy_connect_eq [OF assms(2), of sys cur tr] by (simp add: Let_def)
  then obtain c1 tr1 where c1: "(if htons (th_dest (ti_hdr p)) = 443
      then tcp_proxy_connect sys hostname cur tr else Inr (cur, tr)) = Inr (c1, tr1)"
    by (metis prod.exhaust)
  show ?thesis
    using q [of "ti_seq p" "th_psh (ti_hdr p)" c1] tcp_segment_total [OF assms(1), of sys c1 tr1]
    unfolding tcp_found_def Let_def c1 by auto
qed



text \<open>
  Nothing checks \<open>doff\<close>: with a value below 5 the option length wraps at 8 bits, so the data
  pointer lies behind the header by up to 256 bytes and the data length wraps at 16 bits. A bare
  40 byte packet with \<open>doff = 0\<close> is taken to carry 65300 bytes of data from its byte 276 on.
\<close>

theorem small_doff_wraps_datalen:
  assumes "load_tcphdr (drop 20 pkt) = Inr th" "drop_bit 4 (pkt ! 0) = 4" "th_doff th = 0" "20 \<le> length pkt"
  shows "\<exists>p. parse_tcp pkt 40 20 = Inr p \<and> ti_optlen p = 236 \<and> ti_data p = drop 276 pkt
    \<and> unat (ti_datalen p) = 65300"
proof -
  have "rd pkt 0 = Inr (pkt ! 0)" by (rule rd_in) (use assms(4) in linarith)
  then show ?thesis using assms by (simp add: parse_tcp_def load_iphdr_def Let_def)
qed


theorem small_doff_wraps_datalen_witness:
  "\<exists>p. parse_tcp ((sample_packet4 0x10)[32 := 0]) 40 20 = Inr p \<and> unat (ti_datalen p) = 65300"
proof -
  let ?pkt = "(sample_packet4 0x10)[32 := 0]"
  have "load_tcphdr (drop 20 ?pkt) = Inr (decode_tcphdr (take 20 (drop 20 ?pkt)))"
    by (simp add: load_tcphdr_def sample_packet4_def)
  then show ?thesis
    using small_doff_wraps_datalen [of ?pkt] by (auto simp: sample_packet4_def decode_tcphdr_def)
qed

end
