(* ===== verification/Tcp.thy ===== *)
theory Tcp
  imports Tcp_Socket Tcp_Handle
begin

text \<open>
  The TCP session as a state machine: the packets of the client, the events of the socket, the
  periodic check and the choice of events are the steps; every session they can reach keeps the
  invariant and has followed the life cycle. The last section holds the properties that need both
  the packet side and the socket side.
\<close>

section \<open>Steps\<close>

text \<open>
  A step of one session: \<open>tcp_found\<close> for a packet of its flow, \<open>check_tcp_socket\<close> and
  \<open>monitor_tcp_session\<close> while it has a socket, \<open>check_tcp_session\<close> at any time.
\<close>

inductive tcp_step :: "sys \<Rightarrow> tcp_session \<times> trace \<Rightarrow> tcp_session \<times> trace \<Rightarrow> bool" for sys :: sys where
  packet: "tcp_matches p (TCP s) \<Longrightarrow> tcp_found sys p hostname s tr = Inr (s', tr') \<Longrightarrow>
    tcp_step sys (s, tr) (s', tr')"
| event: "0 \<le> socket s \<Longrightarrow> check_tcp_socket sys evs s tr = Inr (s', tr') \<Longrightarrow>
    tcp_step sys (s, tr) (s', tr')"
| monitor: "0 \<le> socket s \<Longrightarrow> monitor_tcp_session sys s tr = (r, s', tr') \<Longrightarrow>
    tcp_step sys (s, tr) (s', tr')"
| check: "check_tcp_session sys s n m tr = (r, s', tr') \<Longrightarrow> tcp_step sys (s, tr) (s', tr')"

inductive_cases tcp_stepE: "tcp_step sys (s, tr) (s', tr')"

lemma tcp_step_keeps:
  assumes "tcp_step sys (s, tr) (s', tr')" "tcp_inv s" "send_closed sys"
  shows "tcp_keeps (htons (t_dest s) = 443) s s'"
proof (rule tcp_stepE [OF assms(1)])
  fix p hostname
  assume p: "tcp_matches p (TCP s)" "tcp_found sys p hostname s tr = Inr (s', tr')"
  then have "th_dest (ti_hdr p) = t_dest s" by (simp add: tcp_matches_def)
  then show ?thesis using tcp_found_keeps [OF p(2) assms(2,3)] by simp
qed (use check_tcp_socket_keeps monitor_tcp_session_keeps check_tcp_session_keeps assms(2) in \<open>blast | metis\<close>)+

lemma tcp_steps_keep:
  assumes "(tcp_step sys)\<^sup>*\<^sup>* (s, tr) (s', tr')" "tcp_inv s" "send_closed sys"
  shows "tcp_keeps (htons (t_dest s) = 443) s s'"
  using assms(1)
proof (induction rule: rtranclp_induct2)
  case refl
  then show ?case using assms(2) by simp
next
  case (step s1 tr1 s2 tr2)
  have "tcp_inv s1" "t_dest s1 = t_dest s" using step.IH by (simp_all add: tcp_keeps_def)
  then have "tcp_keeps (htons (t_dest s) = 443) s1 s2"
    using tcp_step_keeps [OF step.hyps(2) _ assms(3)] by simp
  with step.IH show ?case by (rule tcp_keeps_trans)
qed




section \<open>Packets and socket together\<close>

text \<open>
  On port 443 the ACK that ends the handshake is queued as a segment of length 0 (\<open>handle_tcp\<close>
  queues every packet until the proxy has answered). The client hello, which has the same sequence
  number, then only replaces that segment's data, not its length: nothing of it is ever forwarded.
\<close>

theorem queued_ack_swallows_client_hello:
  assumes "t_forward cur = []" "0 \<le> compare_u32 seq (t_remote_seq cur)"
    and "datalen \<noteq> 0" "unat datalen \<le> length data"
  shows "\<exists>c1 c2. queue_tcp seq psh1 cur ack_data 0 = Inr c1 \<and> queue_tcp seq psh2 c1 data datalen = Inr c2
    \<and> map sg_seq (t_forward c2) = [seq] \<and> stream (t_forward c2) = []"
proof -
  let ?c1 = "cur\<lparr>t_forward := [new_segment seq 0 psh1 []]\<rparr>"
  let ?c2 = "cur\<lparr>t_forward := [(new_segment seq 0 psh1 [])\<lparr>sg_data := take (unat datalen) data\<rparr>]\<rparr>"
  have "queue_tcp seq psh1 cur ack_data 0 = Inr ?c1"
    using assms(1,2) by (simp add: queue_tcp_def)
  moreover have "queue_tcp seq psh2 ?c1 data datalen = Inr ?c2"
    using assms(2,3,4) by (simp add: queue_tcp_def new_segment_def word_neq_0_conv)
  moreover have "map sg_seq (t_forward ?c2) = [seq]" "stream (t_forward ?c2) = []"
    by (simp_all add: pending_def) (simp add: new_segment_def)
  ultimately show ?thesis by (intro exI [of _ ?c1] exI [of _ ?c2] conjI)
qed

theorem queued_ack_swallows_client_hello_witness:
  "\<exists>c1 c2. queue_tcp 7 False (sample_session TCP_LISTEN) [] 0 = Inr c1
    \<and> queue_tcp 7 True c1 [0x16, 3, 1] 3 = Inr c2 \<and> stream (t_forward c2) = []"
proof -
  have "t_forward (sample_session TCP_LISTEN) = []" "t_remote_seq (sample_session TCP_LISTEN) = 0"
    by (simp_all add: sample_session_def zero_tcp_session_def)
  then show ?thesis
    using queued_ack_swallows_client_hello [of "sample_session TCP_LISTEN" 7 3 "[0x16, 3, 1]" False "[]" True]
    by (auto simp: compare_u32_eq)
qed

text \<open>
  Data on a SYN blocks its connection for good. It is queued at the initial sequence number
  itself, one before the number \<open>remote_seq\<close> has once the SYN is answered, so the head of the queue
  never is the next byte to send: no event forwards anything.
\<close>

theorem syn_data_blocks_forwarding:
  assumes "parse_tcp pkt len off = Inr p" "tcp_syn sys args p uid ss tr = Inr (TCP c # ss, tr1)"
    and "ti_datalen p \<noteq> 0" "tcp_connected sys c tr2 = (c', tr3)"
  shows "forward_loop sys c' b fwd tr4 = Inr (fwd, c', tr4)"
proof -
  have c: "t_remote_seq c = ti_seq p" "SYN_data p = Inr (t_forward c)"
    using tcp_syn_cases [OF assms(2,1)] by auto
  then obtain d where d: "t_forward c = [new_segment (ti_seq p) (ti_datalen p) (th_psh (ti_hdr p)) d]"
    using assms(3) by (auto simp: SYN_data_def rbind_eq_Inr dest: sym)
  have "t_remote_seq c' = ti_seq p + 1" "t_forward c' = t_forward c"
    using assms(4) c by (auto simp: tcp_connected_def syn_ack.w_eq Let_def split: if_splits)
  then have "\<not> head_ready c' b"
    by (simp add: head_ready_def d new_segment_def)
  then show ?thesis by (simp add: forward_loop.simps [of sys c'])
qed

definition sample_syn_data :: bytes where
  "sample_syn_data = sample_packet4 0x02 @ [1, 2, 3]"

theorem syn_data_blocks_forwarding_witness:
  "\<exists>p c tr1. parse_tcp sample_syn_data 43 20 = Inr p
    \<and> tcp_syn calm_sys sample_args p 0 [] [] = Inr ([TCP c], tr1)
    \<and> (\<exists>c' tr3. tcp_connected calm_sys c tr1 = (c', tr3)
        \<and> forward_loop calm_sys c' 1000 False [] = Inr (False, c', []))"
proof -
  let ?p = "sample_input 4 [10, 0, 0, 2] [1, 2, 3, 4] 0x02\<lparr>ti_options := [1, 2, 3], ti_data := [1, 2, 3],
      ti_datalen := 3\<rparr>"
  have p: "parse_tcp sample_syn_data 43 20 = Inr ?p"
    by (simp add: parse_tcp_def sample_syn_data_def sample_packet4_def sample_input_def load_tcphdr_def
        load_iphdr_def decode_iphdr_def Let_def rd_def) (simp add: decode_tcphdr_def)
  have o': "tcp_options_in (ti_options ?p) (ti_optlen ?p) m = Inr (m, 0)" for m
    by (simp add: sample_input_def tcp_options_in_def tcp_option_loop.simps)
  obtain f where d: "SYN_data ?p = Inr f" by (simp add: SYN_data_def sample_input_def)
  have "\<exists>c tr1. tcp_syn calm_sys sample_args ?p 0 [] [] = Inr ([TCP c], tr1)"
    unfolding tcp_syn_def o' d
    by (simp add: Let_def case_prod_beta open_tcp_socket_def tcp_new_session_def)
  then obtain c tr1 where c: "tcp_syn calm_sys sample_args ?p 0 [] [] = Inr ([TCP c], tr1)" by blast
  obtain c' tr3 where c': "tcp_connected calm_sys c tr1 = (c', tr3)" by fastforce
  show ?thesis
    using syn_data_blocks_forwarding [OF p c _ c'] p c c' by auto
qed

end
