(* ===== verification/Dns.thy ===== *)
theory Dns
  imports Util
begin

text \<open>
  \<open>dns.c\<close>: the reader of domain names (\<open>get_qname\<close>), the check of a query (\<open>get_dns_query\<close>) and
  the walk over a response (\<open>parse_dns_response\<close>). A compression pointer may point anywhere, so the
  name loop is a partial function: \<open>None\<close> is an endless loop. \<open>data\<close> is the pointer (the bytes to
  the end of the allocation), \<open>datalen\<close> the length of the message.
\<close>

section \<open>The code\<close>

definition DNS_QCLASS_IN :: u16 where "DNS_QCLASS_IN = 1"
definition DNS_QTYPE_A :: u16 where "DNS_QTYPE_A = 1"
definition DNS_QTYPE_AAAA :: u16 where "DNS_QTYPE_AAAA = 28"
definition DNS_QNAME_MAX :: nat where "DNS_QNAME_MAX = 255"

text \<open>\<open>struct dns_header\<close>, the fields the code reads; \<open>sizeof\<close> is 12.\<close>

record dns_header =
  dns_opcode :: byte
  dns_qr :: bool
  dns_q_count :: u16
  dns_ans_count :: u16

definition DNS_HEADER_SIZE :: nat where "DNS_HEADER_SIZE = 12"

definition load_dns_header :: "bytes \<Rightarrow> dns_header result" where
  "load_dns_header p =
     (if DNS_HEADER_SIZE \<le> length p
      then Inr \<lparr>dns_opcode = drop_bit 3 (p ! 2) AND 15, dns_qr = bit (p ! 2) 7,
                dns_q_count = ld16 (p ! 4) (p ! 5), dns_ans_count = ld16 (p ! 6) (p ! 7)\<rparr>
      else Inl OobRead)"

text \<open>The locals of the name loop.\<close>

record qname_st =
  q_c :: bool
  q_off :: u16
  q_noff :: byte
  q_ptr :: u16
  q_len :: byte
  q_name :: bytes

partial_function (option) qname_loop :: "bytes \<Rightarrow> nat \<Rightarrow> qname_st \<Rightarrow> qname_st result option" where
  "qname_loop data datalen q =
     (if q_len q = 0 then Some (Inr q)
      else if q_len q AND 0xC0 \<noteq> 0 then
        case rd data (unat (q_ptr q) + 1) of Inl e \<Rightarrow> Some (Inl e) | Inr b \<Rightarrow>
        case rd data (unat (q_len q AND 0x3F) * 256 + unat b) of Inl e \<Rightarrow> Some (Inl e) | Inr len \<Rightarrow>
          qname_loop data datalen
            (q\<lparr>q_ptr := of_nat (unat (q_len q AND 0x3F) * 256 + unat b), q_len := len, q_c := True,
               q_off := (if q_c q then q_off q else q_off q + 2)\<rparr>)
      else if unat (q_ptr q) + 1 + unat (q_len q) \<le> datalen \<and>
              unat (q_noff q) + unat (q_len q) \<le> DNS_QNAME_MAX then
        case rd_bytes data (unat (q_ptr q) + 1) (unat (q_len q)) of Inl e \<Rightarrow> Some (Inl e) | Inr label \<Rightarrow>
        case wr_bytes (q_name q) (unat (q_noff q)) (label @ [46]) of Inl e \<Rightarrow> Some (Inl e) | Inr name \<Rightarrow>
        case rd data (unat (q_ptr q + ucast (q_len q) + 1)) of Inl e \<Rightarrow> Some (Inl e) | Inr len \<Rightarrow>
          qname_loop data datalen
            (q\<lparr>q_name := name, q_noff := q_noff q + (q_len q + 1),
               q_ptr := q_ptr q + ucast (q_len q) + 1, q_len := len\<rparr>)
      else Some (Inr q))"

text \<open>The result and the caller's buffer, which the code clears and terminates.\<close>

definition get_qname :: "bytes \<Rightarrow> nat \<Rightarrow> u16 \<Rightarrow> bytes \<Rightarrow> (int \<times> bytes) result" where
  "get_qname data datalen off qname =
     rbind (wr_bytes qname 0 [0]) (\<lambda>qname.
     rbind (rd data (unat off)) (\<lambda>len.
     rbind (returned (qname_loop data datalen
       \<lparr>q_c = False, q_off = off, q_noff = 0, q_ptr = off, q_len = len, q_name = qname\<rparr>)) (\<lambda>q.
     if q_len q > 0 \<or> q_noff q = 0 then Inr (-1, q_name q)
     else rbind (wr_bytes (q_name q) (unat (q_noff q) - 1) [0]) (\<lambda>qname.
       Inr (uint (if q_c q then q_off q else q_ptr q + 1), qname)))))"

definition ld16_at :: "bytes \<Rightarrow> nat \<Rightarrow> u16 result" where
  "ld16_at p i = rbind (rd p i) (\<lambda>a. rbind (rd p (i + 1)) (\<lambda>b. Inr (ld16 a b)))"

text \<open>0 with the type and class of the question, or -1.\<close>

definition get_dns_query :: "bytes \<Rightarrow> nat \<Rightarrow> bytes \<Rightarrow> (int \<times> u16 \<times> u16 \<times> bytes) result" where
  "get_dns_query data datalen qname =
     (if datalen < DNS_HEADER_SIZE + 1 then Inr (-1, 0, 0, qname)
      else rbind (load_dns_header data) (\<lambda>dns.
        if \<not> dns_qr dns \<and> dns_opcode dns = 0 \<and> ntohs (dns_q_count dns) > 0
        then rbind (get_qname data datalen (of_nat DNS_HEADER_SIZE) qname) (\<lambda>(off, qname).
          if off > 0 \<and> off + 4 = int datalen
          then rbind (ld16_at data (nat off)) (\<lambda>qtype.
               rbind (ld16_at data (nat off + 2)) (\<lambda>qclass.
               Inr (0, ntohs qtype, ntohs qclass, qname)))
          else Inr (-1, 0, 0, qname))
        else Inr (-1, 0, 0, qname)))"

text \<open>The loop over the answers; nothing but reads, and the offset.\<close>

fun dns_answers :: "bytes \<Rightarrow> nat \<Rightarrow> nat \<Rightarrow> int \<Rightarrow> bytes \<Rightarrow> unit result" where
  "dns_answers data datalen 0 off name = Inr ()"
| "dns_answers data datalen (Suc n) off name =
     rbind (get_qname data datalen (word_of_int off) name) (\<lambda>(off, name).
       if off > 0 \<and> off + 10 \<le> int datalen
       then rbind (ld16_at data (nat off)) (\<lambda>qtype.
            rbind (ld16_at data (nat off + 2)) (\<lambda>qclass.
            rbind (rd_bytes data (nat off + 4) 4) (\<lambda>ttl.
            rbind (ld16_at data (nat off + 8)) (\<lambda>rdlength.
              let off = off + 10; rdlength = ntohs rdlength
              in if off + int (unat rdlength) \<le> int datalen
                 then rbind
                   (if ntohs qclass = DNS_QCLASS_IN \<and>
                       (ntohs qtype = DNS_QTYPE_A \<or> ntohs qtype = DNS_QTYPE_AAAA)
                    then if ntohs qtype = DNS_QTYPE_A then rd_bytes data (nat off) 4
                         else rd_bytes data (nat off) 16
                    else Inr [])
                   (\<lambda>_. dns_answers data datalen n (off + int (unat rdlength)) name)
                 else Inr ()))))
       else Inr ())"

definition parse_dns_response :: "bytes \<Rightarrow> nat \<Rightarrow> bytes \<Rightarrow> unit result" where
  "parse_dns_response data datalen name =
     (if datalen < DNS_HEADER_SIZE + 1 then Inr ()
      else rbind (load_dns_header data) (\<lambda>dns.
        if dns_qr dns \<and> dns_opcode dns = 0 \<and> ntohs (dns_q_count dns) > 0 \<and> ntohs (dns_ans_count dns) > 0
        then rbind (get_qname data datalen (of_nat DNS_HEADER_SIZE) name) (\<lambda>(off, name).
          if off > 0 \<and> off + 4 \<le> int datalen
          then rbind (ld16_at data (nat off)) (\<lambda>qtype.
               rbind (ld16_at data (nat off + 2)) (\<lambda>qclass.
               dns_answers data datalen (unat (ntohs (dns_ans_count dns))) (off + 4) name))
          else Inr ())
        else Inr ()))"

text \<open>The domain filter is a stub.\<close>

definition check_domain :: "bytes \<Rightarrow> nat \<Rightarrow> u16 \<Rightarrow> u16 \<Rightarrow> bytes \<Rightarrow> int" where
  "check_domain data datalen qclass qtype name = 0"

section \<open>Memory safety\<close>

text \<open>
  A pointer reaches the first 16384 bytes, a label ends inside the message, and the terminating
  byte may lie one behind it.
\<close>

definition qname_inv :: "bytes \<Rightarrow> qname_st \<Rightarrow> bool" where
  "qname_inv data q \<longleftrightarrow> unat (q_ptr q) + 1 < length data \<and> length (q_name q) = 256"

lemma unat_byte_and [simp]: "unat (b AND 0x3F :: byte) < 64"
proof -
  have "b AND 0x3F = take_bit 6 b" by (simp add: take_bit_eq_mask mask_eq_exp_minus_1)
  then show ?thesis using take_bit_nat_less_exp [of 6 "unat b"] by (simp add: unsigned_take_bit_eq)
qed

lemma qname_ptr_bound: "unat (len AND 0x3F :: byte) * 256 + unat (b :: byte) < 16384"
  using unat_byte [of b] unat_byte_and [of len] by linarith

lemma unat_qname_ptr:
  "unat (of_nat (unat (len AND 0x3F) * 256 + unat b) :: u16) = unat (len AND 0x3F :: byte) * 256 + unat (b :: byte)"
  using qname_ptr_bound [of len b] by (subst unsigned_of_nat) (simp add: take_bit_nat_eq_self)

lemma unat_label_ptr_le: "unat (p + ucast (len :: byte) + 1 :: u16) \<le> unat p + 1 + unat len"
proof -
  have "p + ucast len + 1 = (of_nat (unat p + 1 + unat len) :: u16)" by (simp add: add.commute)
  then show ?thesis by (simp only: unsigned_of_nat of_nat_id take_bit_nat_less_eq_self)
qed

lemma qname_loop_safe:
  assumes "qname_loop data datalen q = Some r" "qname_inv data q" "16384 < length data" "datalen + 2 \<le> length data"
  shows "\<exists>q'. r = Inr q' \<and> qname_inv data q'"
proof -
  let ?P = "\<lambda>d n q r. d = data \<and> n = datalen \<and> qname_inv d q \<longrightarrow> (\<exists>q'. r = Inr q' \<and> qname_inv d q')"
  have "?P data datalen q r"
  proof (rule qname_loop.raw_induct [of ?P, OF _ assms(1)], goal_cases)
    case (1 loop d n q r)
    show ?case
    proof (rule impI, elim conjE)
      assume d: "d = data" "n = datalen" and inv: "qname_inv d q"
      have IH: "loop data datalen q' = Some r \<Longrightarrow> qname_inv data q' \<Longrightarrow> \<exists>q'. r = Inr q' \<and> qname_inv d q'" for q'
        using 1(1) [of data datalen q' r] d by simp
      note b = 1(2) [unfolded d]
      note i = inv [unfolded d qname_inv_def]
      consider "q_len q = 0" | "q_len q \<noteq> 0" "q_len q AND 0xC0 \<noteq> 0"
        | "q_len q \<noteq> 0" "q_len q AND 0xC0 = 0" "unat (q_ptr q) + 1 + unat (q_len q) \<le> datalen"
          "unat (q_noff q) + unat (q_len q) \<le> DNS_QNAME_MAX"
        | "q_len q \<noteq> 0" "q_len q AND 0xC0 = 0" "\<not> (unat (q_ptr q) + 1 + unat (q_len q) \<le> datalen \<and>
          unat (q_noff q) + unat (q_len q) \<le> DNS_QNAME_MAX)" by blast
      then show "\<exists>q'. r = Inr q' \<and> qname_inv d q'"
      proof cases
        case 2
        let ?b = "data ! (unat (q_ptr q) + 1)"
        have "unat (q_len q AND 0x3F) * 256 + unat ?b < length data"
          using qname_ptr_bound [of "q_len q" ?b] assms(3) by linarith
        then show ?thesis
          using b 2 i IH assms(3) qname_ptr_bound [of "q_len q" ?b]
          by (auto simp: qname_inv_def unat_qname_ptr simp del: of_nat_add of_nat_mult)
      next
        case 3
        have "unat (q_ptr q + ucast (q_len q) + 1) + 1 < length data"
          using unat_label_ptr_le [of "q_ptr q" "q_len q"] 3(3) assms(4) by linarith
        then show ?thesis
          using b 3 i IH assms(4) by (auto simp: qname_inv_def DNS_QNAME_MAX_def)
      qed (use b i d in \<open>auto simp: qname_inv_def\<close>)
    qed
  qed
  with assms(2) show ?thesis by simp
qed

text \<open>Either the loop hangs or the result is a C string in the buffer and an offset.\<close>

definition dns_safe :: "('a \<Rightarrow> bool) \<Rightarrow> 'a result \<Rightarrow> bool" where
  "dns_safe P r \<longleftrightarrow> r = Inl Hang \<or> (\<exists>x. r = Inr x \<and> P x)"

lemma dns_safe_Inr [simp]: "dns_safe P (Inr x) = P x"
  by (simp add: dns_safe_def)

lemma dns_safe_rbind:
  "dns_safe P m \<Longrightarrow> (\<And>x. P x \<Longrightarrow> dns_safe Q (f x)) \<Longrightarrow> dns_safe Q (rbind m f)"
  by (cases m) (simp_all add: dns_safe_def)

definition qname_out :: "int \<times> bytes \<Rightarrow> bool" where
  "qname_out r \<longleftrightarrow> length (snd r) = 256 \<and> - 1 \<le> fst r \<and> fst r < 65536 \<and> (0 \<le> fst r \<longrightarrow> 0 \<in> set (snd r))"

lemma uint_u16: "-1 \<le> uint (w :: u16)" "uint (w :: u16) < 65536"
  using uint_lt2p [of w] order_trans [OF _ uint_ge_0 [of w], of "-1"] by simp_all

lemma qname_finish_safe:
  assumes "length (q_name q) = 256"
  shows "dns_safe qname_out
    (if q_len q > 0 \<or> q_noff q = 0 then Inr (-1, q_name q)
     else rbind (wr_bytes (q_name q) (unat (q_noff q) - 1) [0]) (\<lambda>qname.
       Inr (uint (if q_c q then q_off q else q_ptr q + 1), qname)))"
  using assms unat_byte [of "q_noff q"] uint_u16 [of "q_off q"] uint_u16 [of "q_ptr q + 1"]
  by (auto simp: qname_out_def)

lemma get_qname_safe:
  assumes "16384 < length data" "datalen + 2 \<le> length data" "length qname = 256"
    "unat off + 1 < length data"
  shows "dns_safe qname_out (get_qname data datalen off qname)"
proof -
  define qname' where "qname' = 0 # tl qname"
  define q where "q = \<lparr>q_c = False, q_off = off, q_noff = 0, q_ptr = off,
    q_len = data ! unat off, q_name = qname'\<rparr>"
  have w: "wr_bytes qname 0 [0] = Inr qname'" "length qname' = 256"
    using assms(3) by (cases qname; simp add: qname'_def)+
  have "dns_safe (qname_inv data) (returned (qname_loop data datalen q))"
    using qname_loop_safe [OF _ _ assms(1,2)] assms(4) w
    by (cases "qname_loop data datalen q") (auto simp: dns_safe_def qname_inv_def q_def)
  then show ?thesis
    unfolding get_qname_def using w assms(4)
    by (simp flip: q_def) (auto simp: qname_inv_def intro!: dns_safe_rbind qname_finish_safe)
qed

lemma ld16_at_in [simp]: "i + 1 < length p \<Longrightarrow> ld16_at p i = Inr (ld16 (p ! i) (p ! (i + 1)))"
  by (simp add: ld16_at_def)

lemma load_dns_header_in:
  "DNS_HEADER_SIZE \<le> length p \<Longrightarrow> \<exists>h. load_dns_header p = Inr h"
  by (simp add: load_dns_header_def)

lemma nat_word_of_int_le: "0 \<le> off \<Longrightarrow> off \<le> int n \<Longrightarrow> unat (word_of_int off :: u16) \<le> n"
proof -
  assume a: "0 \<le> off" "off \<le> int n"
  then obtain k where "off = int k" "k \<le> n" by (metis nonneg_int_cases of_nat_le_iff)
  then show ?thesis
    by (simp add: unsigned_of_nat) (metis take_bit_nat_less_eq_self le_trans)
qed

lemma dns_answers_safe:
  assumes "16384 < length data" "datalen + 16 \<le> length data" "length name = 256"
    "0 \<le> off" "off \<le> int datalen"
  shows "dns_safe (\<lambda>_. True) (dns_answers data datalen n off name)"
  using assms(3-5)
proof (induction n arbitrary: off name)
  case (Suc n)
  have "unat (word_of_int off :: u16) \<le> datalen"
    by (rule nat_word_of_int_le) (use Suc.prems in simp_all)
  then have "dns_safe qname_out (get_qname data datalen (word_of_int off) name)"
    using assms(1,2) Suc.prems(1) by (intro get_qname_safe) simp_all
  then show ?case
    unfolding dns_answers.simps
  proof (rule dns_safe_rbind, goal_cases)
    case (1 r)
    show ?case
    proof (cases "fst r > 0 \<and> fst r + 10 \<le> int datalen")
      case True
      obtain k where k: "fst r = int k" "k > 0" "k + 10 \<le> datalen"
        using True by (metis (mono_tags) nonneg_int_cases of_nat_0_less_iff of_nat_add of_nat_le_iff
            of_nat_numeral order_less_imp_le)
      have IH: "dns_safe (\<lambda>_. True) (dns_answers data datalen n (int k + 10 + uint w) (snd r))"
        if "int k + 10 + uint w \<le> int datalen" for w :: u16
        using Suc.IH [of "snd r" "int k + 10 + uint w"] 1 that by (simp add: qname_out_def)
      have nk: "nat (int k + 10) = k + 10" by (simp add: nat_add_distrib)
      then show ?thesis
        using k assms(2) IH by (cases r) (simp add: Let_def)
    qed (cases r; auto)
  qed
qed simp

text \<open>
  C30: Whatever a DNS message holds - labels, compression pointers, counts, record lengths - neither
  the query check on the client's packet nor the walk over a server's response reads or writes
  outside its buffers, if 16385 bytes are allocated and 16 of them lie behind the message; each
  either returns or loops for ever.
\<close>

theorem dns_memory_safe:
  assumes "16384 < length data" "datalen + 16 \<le> length data" "length qname = 256"
  shows "get_dns_query data datalen qname \<notin> {Inl OobRead, Inl OobWrite}
    \<and> parse_dns_response data datalen qname \<notin> {Inl OobRead, Inl OobWrite}"
proof -
  obtain h where h: "load_dns_header data = Inr h"
    using load_dns_header_in [of data] assms(1) by (auto simp: DNS_HEADER_SIZE_def)
  have q: "dns_safe qname_out (get_qname data datalen (of_nat DNS_HEADER_SIZE) qname)"
    using assms by (intro get_qname_safe) (simp_all add: DNS_HEADER_SIZE_def)
  have 1: "dns_safe (\<lambda>_. True) (get_dns_query data datalen qname)"
    using assms(2) unfolding get_dns_query_def h rbind_Inr
    by (auto simp: nat_le_iff zless_nat_eq_int_zless intro!: dns_safe_rbind [OF q])
  have 2: "dns_safe (\<lambda>_. True) (parse_dns_response data datalen qname)"
    using assms(2) unfolding parse_dns_response_def h rbind_Inr
    by (auto simp: qname_out_def intro!: dns_safe_rbind [OF q] dns_answers_safe [OF assms(1,2)])
  show ?thesis using 1 2 by (auto simp: dns_safe_def)
qed

theorem dns_memory_safe_witness:
  "parse_dns_response (replicate 20000 0xC0) 100 (replicate 256 0) \<noteq> Inl OobRead"
proof -
  have "16384 < length (replicate 20000 0xC0 :: bytes)" "100 + 16 \<le> length (replicate 20000 0xC0 :: bytes)"
    "length (replicate 256 0 :: bytes) = 256" by (simp_all only: length_replicate)
  from dns_memory_safe [OF this] show ?thesis by blast
qed

section \<open>Names\<close>

definition label_ok :: "bytes \<Rightarrow> bool" where
  "label_ok l \<longleftrightarrow> l \<noteq> [] \<and> length l \<le> 63"

definition dns_name :: "bytes list \<Rightarrow> bytes" where
  "dns_name ls = concat (map (\<lambda>l. of_nat (length l) # l) ls)"

definition dotted :: "bytes list \<Rightarrow> bytes" where
  "dotted ls = concat (map (\<lambda>l. l @ [46]) ls)"

lemma dns_name_simps [simp]:
  "dns_name [] = []" "dns_name (l # ls) = of_nat (length l) # l @ dns_name ls"
  "dotted [] = []" "dotted (l # ls) = l @ [46] @ dotted ls"
  by (simp_all add: dns_name_def dotted_def)

lemma length_dotted [simp]: "length (dotted ls) = length (dns_name ls)"
  by (induction ls) simp_all

text \<open>The two kinds of length byte.\<close>

lemma len_byte_table:
  "list_all (\<lambda>n. (of_nat n :: byte) AND 0xC0 = 0 \<and> (0xC0 OR of_nat n :: byte) AND 0x3F = of_nat n \<and>
     (0xC0 OR of_nat n :: byte) AND 0xC0 \<noteq> 0 \<and> (0xC0 OR of_nat n :: byte) \<noteq> 0 \<and>
     unat (of_nat n :: byte) = n) [0..<64]"
  by code_simp

lemma len_byte:
  assumes "n < 64"
  shows "(of_nat n :: byte) AND 0xC0 = 0" "(0xC0 OR of_nat n :: byte) AND 0x3F = of_nat n"
    "(0xC0 OR of_nat n :: byte) AND 0xC0 \<noteq> 0" "(0xC0 OR of_nat n :: byte) \<noteq> 0"
    "unat (of_nat n :: byte) = n"
proof -
  have "n \<in> set [0..<64]" using assms by simp
  with len_byte_table show "(of_nat n :: byte) AND 0xC0 = 0" "(0xC0 OR of_nat n :: byte) AND 0x3F = of_nat n"
    "(0xC0 OR of_nat n :: byte) AND 0xC0 \<noteq> 0" "(0xC0 OR of_nat n :: byte) \<noteq> 0"
    "unat (of_nat n :: byte) = n"
    unfolding list_all_iff by blast+
qed

lemma label_len:
  assumes "label_ok l"
  shows "unat (of_nat (length l) :: byte) = length l" "(of_nat (length l) :: byte) \<noteq> 0"
    "(of_nat (length l) :: byte) AND 0xC0 = 0"
proof -
  have n: "length l < 64" "length l \<noteq> 0" using assms by (simp_all add: label_ok_def)
  show "unat (of_nat (length l) :: byte) = length l" "(of_nat (length l) :: byte) AND 0xC0 = 0"
    by (rule len_byte [OF n(1)])+
  then show "(of_nat (length l) :: byte) \<noteq> 0" using n(2) by (metis unsigned_0)
qed

text \<open>The state of the loop with \<open>w\<close> read so far, at position \<open>p\<close>.\<close>

definition qname_at :: "bytes \<Rightarrow> bytes \<Rightarrow> nat \<Rightarrow> qname_st \<Rightarrow> bool" where
  "qname_at data w p q \<longleftrightarrow> unat (q_ptr q) = p \<and> p < length data \<and> q_len q = data ! p \<and>
     unat (q_noff q) = length w \<and> take (length w) (q_name q) = w \<and> length (q_name q) = 256"

lemma unat_of_nat_le: "n < 65536 \<Longrightarrow> unat (of_nat n :: u16) = n" "m < 256 \<Longrightarrow> unat (of_nat m :: byte) = m"
  by (simp_all add: unsigned_of_nat take_bit_nat_eq_self)

lemma qname_loop_label:
  assumes at: "qname_at data w (length pre) q" and data: "data = pre @ of_nat (length l) # l @ b # rest"
    and l: "label_ok l" "length w + length l < 255" "length pre + length l + 1 < 65536"
    and "length pre + length l + 1 \<le> datalen"
  shows "\<exists>q'. qname_loop data datalen q = qname_loop data datalen q' \<and> q_c q' = q_c q \<and> q_off q' = q_off q
    \<and> qname_at data (w @ l @ [46]) (length pre + length l + 1) q'"
proof -
  define name where "name = w @ (l @ [46]) @ drop (length w + (length l + 1)) (q_name q)"
  define q' where "q' = q\<lparr>q_name := name, q_noff := q_noff q + (q_len q + 1),
    q_ptr := q_ptr q + ucast (q_len q) + 1, q_len := b\<rparr>"
  have len: "q_len q = of_nat (length l)" using at data by (simp add: qname_at_def)
  have p: "unat (q_ptr q + ucast (q_len q) + 1) = length pre + length l + 1"
  proof -
    have "q_ptr q + ucast (q_len q) + 1 = of_nat (unat (q_ptr q) + unat (q_len q) + 1)" by simp
    also have "\<dots> = of_nat (length pre + length l + 1)"
      using at label_len(1) [OF l(1)] by (simp add: len qname_at_def)
    finally show ?thesis by (simp only:) (rule unat_of_nat_le, use l(3) in simp)
  qed
  have n: "unat (q_noff q + (q_len q + 1)) = length w + length l + 1"
  proof -
    have "q_noff q + (q_len q + 1) = of_nat (unat (q_noff q) + unat (q_len q) + 1)"
      by (simp add: add.assoc)
    also have "\<dots> = of_nat (length w + length l + 1)"
      using at label_len(1) [OF l(1)] by (simp add: len qname_at_def)
    finally show ?thesis by (simp only:) (rule unat_of_nat_le, use l(2) in simp)
  qed
  have "wr_bytes (q_name q) (unat (q_noff q)) (l @ [46]) = Inr name"
    using at l(2) by (simp add: qname_at_def name_def)
  moreover have "rd_bytes data (unat (q_ptr q) + 1) (unat (q_len q)) = Inr l"
    using at label_len(1) [OF l(1)] by (simp add: len qname_at_def data)
  moreover have "rd data (length pre + length l + 1) = Inr b"
    by (simp add: data rd_def nth_append)
  moreover have "unat (q_ptr q) + 1 + unat (q_len q) \<le> datalen \<and> unat (q_noff q) + unat (q_len q) \<le> DNS_QNAME_MAX"
    using assms label_len(1) [OF l(1)] by (simp add: len qname_at_def DNS_QNAME_MAX_def)
  ultimately have "qname_loop data datalen q = qname_loop data datalen q'"
    using label_len(2,3) [OF l(1)] p
    by (subst qname_loop.simps) (simp add: len q'_def)
  moreover have "qname_at data (w @ l @ [46]) (length pre + length l + 1) q'"
    using at l(2) p n by (simp add: qname_at_def q'_def name_def data nth_append)
  ultimately show ?thesis by (intro exI [of _ q']) (simp add: q'_def)
qed

lemma qname_loop_labels:
  assumes "qname_at data w (length pre) q" "data = pre @ dns_name ls @ b # rest"
    and "list_all label_ok ls" "length w + length (dns_name ls) < 256"
    and "length pre + length (dns_name ls) < 65536" "length pre + length (dns_name ls) \<le> datalen"
  shows "\<exists>q'. qname_loop data datalen q = qname_loop data datalen q' \<and> q_c q' = q_c q \<and> q_off q' = q_off q
    \<and> qname_at data (w @ dotted ls) (length pre + length (dns_name ls)) q'"
  using assms
proof (induction ls arbitrary: w pre q)
  case (Cons l ls)
  define pre' where "pre' = pre @ of_nat (length l) # l"
  define w' where "w' = w @ l @ [46]"
  obtain b' rest' where r: "dns_name ls @ b # rest = b' # rest'"
    by (cases "dns_name ls @ b # rest") auto
  obtain q1 where q1: "qname_loop data datalen q = qname_loop data datalen q1" "q_c q1 = q_c q" "q_off q1 = q_off q"
    "qname_at data w' (length pre + length l + 1) q1"
    using qname_loop_label [OF Cons.prems(1), of l b' rest' datalen] Cons.prems r
    by (auto simp: w'_def)
  have "\<exists>q'. qname_loop data datalen q1 = qname_loop data datalen q' \<and> q_c q' = q_c q1 \<and> q_off q' = q_off q1
    \<and> qname_at data (w' @ dotted ls) (length pre' + length (dns_name ls)) q'"
    using Cons.prems q1(4) by (intro Cons.IH) (simp_all add: pre'_def w'_def)
  then show ?case using q1 by (auto simp: pre'_def w'_def add.assoc)
qed auto

text \<open>The pointer: the loop goes on at the target, and the first one moves \<open>off\<close>.\<close>

lemma qname_loop_pointer:
  assumes at: "qname_at data w p q" and "data ! p = 0xC0 OR of_nat hi" "hi < 64" "p + 1 < length data"
    and t: "hi * 256 + unat (data ! (p + 1)) = t" "t < length data"
  shows "\<exists>q'. qname_loop data datalen q = qname_loop data datalen q' \<and> q_c q' \<and>
    q_off q' = (if q_c q then q_off q else q_off q + 2) \<and> qname_at data w t q'"
proof -
  define q' where "q' = q\<lparr>q_ptr := of_nat t, q_len := data ! t, q_c := True,
    q_off := (if q_c q then q_off q else q_off q + 2)\<rparr>"
  have len: "q_len q = 0xC0 OR of_nat hi" and p: "unat (q_ptr q) = p"
    using at assms(2) by (simp_all add: qname_at_def)
  have "hi * 256 + unat (data ! (p + 1)) < 65536"
    using assms(3) unat_byte [of "data ! (p + 1)"] by simp
  then have t2: "unat (of_nat t :: u16) = t"
    unfolding t(1) by (rule unat_of_nat_le)
  have "qname_loop data datalen q = qname_loop data datalen q'"
    using len_byte(2-5) [OF assms(3)] assms(4) t
    by (subst qname_loop.simps) (simp add: len p q'_def)
  moreover have "qname_at data w t q'"
    using at t(2) t2 by (simp add: qname_at_def q'_def)
  ultimately show ?thesis by (intro exI [of _ q']) (simp add: q'_def)
qed

text \<open>What \<open>get_qname\<close> makes of the end of the loop, at the terminating zero.\<close>

lemma get_qname_end:
  assumes "length qname = 256" "unat off < length data"
    and loop: "\<And>q. qname_at data [] (unat off) q \<Longrightarrow> \<not> q_c q \<Longrightarrow> q_off q = off \<Longrightarrow>
      \<exists>q'. qname_loop data datalen q = qname_loop data datalen q' \<and> qname_at data w p q' \<and>
        q_c q' = c \<and> q_off q' = off'"
    and "data ! p = 0" "w = u @ [46]" "p + 1 < 65536"
  shows "\<exists>name. get_qname data datalen off qname = Inr (if c then uint off' else int p + 1, name)
    \<and> take (length w) name = u @ [0] \<and> length name = 256"
proof -
  define q where "q = \<lparr>q_c = False, q_off = off, q_noff = 0, q_ptr = off,
    q_len = data ! unat off, q_name = 0 # tl qname\<rparr>"
  have w: "wr_bytes qname 0 [0] = Inr (0 # tl qname)"
    using assms(1) by (cases qname) simp_all
  have "qname_at data [] (unat off) q"
    using assms(1,2) by (simp add: qname_at_def q_def)
  then obtain q' where q': "qname_loop data datalen q = qname_loop data datalen q'"
      "qname_at data w p q'" "q_c q' = c" "q_off q' = off'"
    using loop [of q] by (auto simp: q_def)
  have len: "q_len q' = 0" "unat (q_noff q') = length w" "length w \<noteq> 0"
    using q'(2) assms(4,5) by (simp_all add: qname_at_def)
  then have r: "qname_loop data datalen q = Some (Inr q')" "q_noff q' \<noteq> 0"
    by (auto simp: q'(1) qname_loop.simps [of _ _ q'])
  have w256: "length w < 256" using q'(2) unat_byte [of "q_noff q'"] by (simp add: qname_at_def)
  have ptr: "uint (q_ptr q' + 1) = int p + 1"
  proof -
    have "q_ptr q' + 1 = of_nat (p + 1)" using q'(2) by (auto simp: qname_at_def add.commute)
    then have "unat (q_ptr q' + 1) = p + 1" by (simp only:) (rule unat_of_nat_le, rule assms(6))
    moreover have "uint (q_ptr q' + 1) = int (unat (q_ptr q' + 1))" by simp
    ultimately show ?thesis by (simp only: of_nat_add of_nat_1)
  qed
  define name where "name = take (length u) (q_name q') @ [0] @ drop (length u + 1) (q_name q')"
  have "wr_bytes (q_name q') (length u) [0] = Inr name"
    using q'(2) w256 assms(5) by (simp add: name_def qname_at_def)
  then have "get_qname data datalen off qname = Inr (if c then uint off' else int p + 1, name)"
    using assms(2,5) w r len ptr q'(3,4) by (simp add: get_qname_def flip: q_def)
  moreover have "take (length u) (q_name q') = u"
  proof -
    have "take (length u) (take (length w) (q_name q')) = take (length u) w"
      using q'(2) by (simp add: qname_at_def)
    then show ?thesis using assms(5) by simp
  qed
  ultimately show ?thesis
    using q'(2) w256 assms(5) by (auto simp: name_def qname_at_def)
qed

lemma dotted_dot: "ls \<noteq> [] \<Longrightarrow> dotted ls = butlast (dotted ls) @ [46]"
  by (induction ls rule: rev_induct) (simp_all add: dotted_def butlast_append)

text \<open>
  C31: A plain name at \<open>off\<close> - labels of 1 to 63 bytes, at most 255 bytes with their lengths, then a
  zero byte - is decoded into its dotted form as a C string, and the result is the offset behind the
  zero byte.
\<close>

theorem get_qname_decodes:
  assumes "data = pre @ dns_name ls @ 0 # rest" "list_all label_ok ls" "ls \<noteq> []"
    and "length (dns_name ls) < 256" "length pre + length (dns_name ls) + 1 < 65536"
    and "length pre + length (dns_name ls) \<le> datalen" "length qname = 256"
  shows "\<exists>name. get_qname data datalen (of_nat (length pre)) qname
      = Inr (int (length pre + length (dns_name ls) + 1), name)
    \<and> take (length (dns_name ls)) name = butlast (dotted ls) @ [0]"
proof -
  have off: "unat (of_nat (length pre) :: u16) = length pre"
    by (rule unat_of_nat_le) (use assms(5) in simp)
  note dot = dotted_dot [OF assms(3)]
  have "\<exists>name. get_qname data datalen (of_nat (length pre)) qname
      = Inr (if False then uint (of_nat (length pre) :: u16) else int (length pre + length (dns_name ls)) + 1, name)
    \<and> take (length (dotted ls)) name = butlast (dotted ls) @ [0] \<and> length name = 256"
  proof (rule get_qname_end [OF assms(7) _ _ _ dot])
    fix q assume "qname_at data [] (unat (of_nat (length pre) :: u16)) q" "\<not> q_c q"
      "q_off q = of_nat (length pre)"
    then show "\<exists>q'. qname_loop data datalen q = qname_loop data datalen q' \<and>
        qname_at data (dotted ls) (length pre + length (dns_name ls)) q' \<and> q_c q' = False \<and> q_off q' = of_nat (length pre)"
      using qname_loop_labels [of data "[]" pre q ls 0 rest datalen] assms by (auto simp: off)
  qed (use assms in \<open>simp_all add: off nth_append\<close>)
  then show ?thesis by (auto simp: add.assoc)
qed

theorem get_qname_decodes_witness:
  "\<exists>name. get_qname ([7] @ dns_name [[119], [99, 111]] @ 0 # [5]) 7 1 (replicate 256 0) = Inr (7, name)
    \<and> take 5 name = [119, 46, 99, 111, 0]"
proof -
  have 5: "(5 :: nat) = Suc (Suc (Suc (Suc (Suc 0))))" by simp
  show ?thesis unfolding 5
    using get_qname_decodes [of "[7] @ dns_name [[119], [99, 111]] @ 0 # [5]" "[7]" "[[119], [99, 111]]" "[5]" 7
      "replicate 256 0", OF refl]
    by (simp add: label_ok_def)
qed

text \<open>
  A name that ends in a compression pointer, as in RFC 1035 4.1.4 (labels, then a pointer to
  further labels), is decoded right, but the result is two bytes behind its START: with labels before
  the pointer the caller goes on inside the name and not behind it.
\<close>

theorem compressed_name_wrong_offset:
  assumes "data = pre @ dns_name ls @ (0xC0 OR of_nat hi) # lo # rest" "drop t data = dns_name ls' @ 0 # rest'"
    and "t = hi * 256 + unat lo" "hi < 64" "list_all label_ok (ls @ ls')" "ls @ ls' \<noteq> []"
    and "length (dns_name (ls @ ls')) < 256" "length pre + length (dns_name ls) + 2 < 65536"
    and "length pre + length (dns_name ls) \<le> datalen" "t + length (dns_name ls') \<le> datalen"
    and "length qname = 256"
  shows "\<exists>name. get_qname data datalen (of_nat (length pre)) qname = Inr (int (length pre + 2), name)
    \<and> take (length (dns_name (ls @ ls'))) name = butlast (dotted (ls @ ls')) @ [0]"
proof -
  let ?ls = "ls @ ls'" and ?p = "length pre + length (dns_name ls)" and ?t = "t + length (dns_name ls')"
  have off: "unat (of_nat (length pre) :: u16) = length pre" "unat (of_nat (length pre + 2) :: u16) = length pre + 2"
    by (rule unat_of_nat_le, use assms(8) in simp)+
  note dot = dotted_dot [OF assms(6)]
  have app: "dns_name ?ls = dns_name ls @ dns_name ls'" "dotted ?ls = dotted ls @ dotted ls'"
    by (simp_all add: dns_name_def dotted_def)
  have t: "t < length data" using assms(2) by (metis drop_all append_is_Nil_conv list.distinct(1) not_le)
  have split: "data = take t data @ dns_name ls' @ 0 # rest'"
    by (simp flip: assms(2))
  have t64: "?t + 1 < 65536"
    using assms(3,4,7) unat_byte [of lo] by (simp add: app)
  have "\<exists>name. get_qname data datalen (of_nat (length pre)) qname
      = Inr (if True then uint (of_nat (length pre + 2) :: u16) else int ?t + 1, name)
    \<and> take (length (dotted ?ls)) name = butlast (dotted ?ls) @ [0] \<and> length name = 256"
  proof (rule get_qname_end [OF assms(11) _ _ _ dot])
    fix q assume q: "qname_at data [] (unat (of_nat (length pre) :: u16)) q" "\<not> q_c q"
      "q_off q = of_nat (length pre)"
    obtain q1 where q1: "qname_loop data datalen q = qname_loop data datalen q1" "\<not> q_c q1" "q_off q1 = q_off q"
      "qname_at data (dotted ls) ?p q1"
      using qname_loop_labels [of data "[]" pre q ls "0xC0 OR of_nat hi" "lo # rest" datalen] assms q
      by (auto simp: off app)
    obtain q2 where q2: "qname_loop data datalen q1 = qname_loop data datalen q2" "q_c q2"
      "q_off q2 = of_nat (length pre + 2)" "qname_at data (dotted ls) t q2"
      using qname_loop_pointer [OF q1(4), of hi t datalen] assms(1,3,4) q(3) q1(2,3) t
      by (auto simp: nth_append)
    obtain q3 where "qname_loop data datalen q2 = qname_loop data datalen q3" "q_c q3 = q_c q2"
      "q_off q3 = q_off q2" "qname_at data (dotted ?ls) ?t q3"
      using qname_loop_labels [of data "dotted ls" "take t data" q2 ls' 0 rest' datalen, OF _ split] q2(4) t
        assms(5,7,10) t64 by (auto simp: app)
    then show "\<exists>q'. qname_loop data datalen q = qname_loop data datalen q' \<and>
        qname_at data (dotted ?ls) ?t q' \<and> q_c q' = True \<and> q_off q' = of_nat (length pre + 2)"
      using q1 q2 by auto
  next
    show "data ! ?t = 0"
      using assms(2) t by (metis nth_append_length nth_drop less_imp_le)
  qed (use assms off t64 in simp_all)
  moreover have "uint (of_nat (length pre + 2) :: u16) = int (unat (of_nat (length pre + 2) :: u16))" by simp
  ultimately show ?thesis by (simp only: off if_True length_dotted) auto
qed

theorem compressed_name_wrong_offset_witness:
  "\<exists>name. get_qname ([2, 99, 111, 0] @ dns_name [[119]] @ (0xC0 OR of_nat 0) # 0 # [5]) 8 4 (replicate 256 0)
      = Inr (6, name) \<and> take 5 name = [119, 46, 99, 111, 0]"
proof -
  have 5: "(5 :: nat) = Suc (Suc (Suc (Suc (Suc 0))))" by simp
  show ?thesis unfolding 5
    using compressed_name_wrong_offset [of "[2, 99, 111, 0] @ dns_name [[119]] @ (0xC0 OR of_nat 0) # 0 # [5]"
      "[2, 99, 111, 0]" "[[119]]" 0 0 "[5]" 0 "[[99, 111]]" "[1, 119, 0xC0 OR of_nat 0, 0, 5]" 8 "replicate 256 0", OF refl]
    by (simp add: label_ok_def)
qed

section \<open>A pointer to itself\<close>

lemma qname_loop_stuck:
  assumes "data ! p = 0xC0 OR of_nat hi" "hi < 64" "hi * 256 + unat (data ! (p + 1)) = p"
    and "unat (q_ptr q) = p" "q_len q = data ! p" "p + 1 < length data"
  shows "qname_loop data datalen q = None"
proof (rule ccontr)
  assume "qname_loop data datalen q \<noteq> None"
  then obtain r where r: "qname_loop data datalen q = Some r" by blast
  have p: "p < 65536" using assms(2,3) unat_byte [of "data ! (p + 1)"] by simp
  have "data = data \<longrightarrow> unat (q_ptr q) = p \<longrightarrow> q_len q = data ! p \<longrightarrow> False"
  proof (rule qname_loop.raw_induct [of "\<lambda>d n q r. d = data \<longrightarrow> unat (q_ptr q) = p \<longrightarrow>
        q_len q = data ! p \<longrightarrow> False", OF _ r], goal_cases)
    case (1 loop d n q r)
    note IH = 1(1) and body = 1(2)
    show ?case
    proof (intro impI)
      assume a: "d = data" "unat (q_ptr q) = p" "q_len q = data ! p"
      show False
        using body len_byte(2-5) [OF assms(2)] assms(1,3,6) p a
          IH [of data n "q\<lparr>q_ptr := of_nat p, q_len := data ! p, q_c := True,
               q_off := (if q_c q then q_off q else q_off q + 2)\<rparr>" r]
        by (simp add: unat_of_nat_le)
    qed
  qed
  with assms(4,5) show False by simp
qed

text \<open>
  C32: A query whose first name is a compression pointer to itself (the bytes C0 0C behind the header)
  makes the name loop run for ever: one packet to port 53 stops the event loop.
\<close>

theorem self_pointer_hangs:
  assumes "drop 12 data = 0xC0 # 12 # rest" "bit (data ! 2) 7 = False" "drop_bit 3 (data ! 2) AND 15 = 0"
    and "ntohs (ld16 (data ! 4) (data ! 5)) > 0" "13 \<le> datalen" "length qname = 256"
  shows "get_dns_query data datalen qname = Inl Hang"
proof -
  have len: "length data > 13" using arg_cong [OF assms(1), of length] by simp
  have d: "data ! 12 = 0xC0 OR of_nat 0" "data ! 13 = 12"
    using arg_cong [OF assms(1), of "\<lambda>xs. xs ! 0"] arg_cong [OF assms(1), of "\<lambda>xs. xs ! 1"] len by simp_all
  have "get_qname data datalen (of_nat DNS_HEADER_SIZE) qname = Inl Hang"
    using len d assms(6) qname_loop_stuck [of data 12 0]
    by (simp add: get_qname_def DNS_HEADER_SIZE_def)
  then show ?thesis
    using assms(2-5) len by (simp add: get_dns_query_def load_dns_header_def DNS_HEADER_SIZE_def)
qed

theorem self_pointer_hangs_witness:
  "get_dns_query ([0, 7, 1, 0, 0, 1, 0, 0, 0, 0, 0, 0] @ 0xC0 # 12 # [0, 1, 0, 1]) 18 (replicate 256 0) = Inl Hang"
  by (rule self_pointer_hangs) (simp_all add: ld16_def ntohs_def bit_numeral_iff)

end
