(* ===== verification/Udp_Output.thy ===== *)
theory Udp_Output
  imports Ip_Output
begin

text \<open>
  \<open>write_udp\<close> of \<open>udp.c\<close>: a datagram from the remote end, put into an IP packet for the client.
\<close>

section \<open>The code\<close>

definition IPPROTO_UDP :: byte where "IPPROTO_UDP = 17"

definition build_udp :: "udp_session \<Rightarrow> nat \<Rightarrow> udphdr" where
  "build_udp cur datalen = zero_udphdr\<lparr>uh_source := u_dest cur, uh_dest := u_source cur,
     uh_len := htons (of_nat (8 + datalen))\<rparr>"

definition udp_packet :: "udp_session \<Rightarrow> bytes \<Rightarrow> bytes" where
  "udp_packet cur data =
     (let (iph, csum) = ip_part (u_version cur) (u_saddr cur) (u_daddr cur) IPPROTO_UDP (8 + length data);
          udp = build_udp cur (length data);
          csum = calc_checksum csum (store_udphdr udp);
          csum = calc_checksum csum data;
          udp = udp\<lparr>uh_check := NOT csum\<rparr>
      in iph @ store_udphdr udp @ data)"

definition write_udp :: "sys \<Rightarrow> udp_session \<Rightarrow> bytes \<Rightarrow> trace \<Rightarrow> int \<times> trace" where
  "write_udp sys cur data tr =
     (let buffer = udp_packet cur data;
          res = sys_tun_write sys tr buffer;
          tr = tr @ [ETunWrite buffer]
      in (if res \<noteq> int (length buffer) then -1 else res, tr))"

lemma write_udp_trace: "write_udp sys cur data tr = (r, tr') \<Longrightarrow> tr' = tr @ [ETunWrite (udp_packet cur data)]"
  by (simp add: write_udp_def Let_def)

section \<open>What a receiver sees\<close>

definition udp_addrs_ok :: "udp_session \<Rightarrow> bool" where
  "udp_addrs_ok cur \<longleftrightarrow> addr_ok (u_version cur) (u_saddr cur) \<and> addr_ok (u_version cur) (u_daddr cur)"

definition udp_filled :: "udp_session \<Rightarrow> bytes \<Rightarrow> udphdr" where
  "udp_filled cur data = (build_udp cur (length data))\<lparr>uh_check := NOT (calc_checksum (calc_checksum
     (snd (ip_part (u_version cur) (u_saddr cur) (u_daddr cur) IPPROTO_UDP (8 + length data)))
     (store_udphdr (build_udp cur (length data)))) data)\<rparr>"

lemma udp_packet_eq:
  "udp_packet cur data = fst (ip_part (u_version cur) (u_saddr cur) (u_daddr cur) IPPROTO_UDP
     (length (store_udphdr (udp_filled cur data) @ data))) @ store_udphdr (udp_filled cur data) @ data"
  by (simp add: udp_packet_def udp_filled_def Let_def split: prod.splits)

definition udp_pre :: "udphdr \<Rightarrow> bytes" where
  "udp_pre h = st16 (uh_source h) @ st16 (uh_dest h) @ st16 (uh_len h)"

lemma store_udphdr_check: "store_udphdr (h\<lparr>uh_check := c\<rparr>) = udp_pre h @ st16 c"
  by (simp add: store_udphdr_def udp_pre_def)

lemma store_build_udp: "store_udphdr (build_udp cur n) = udp_pre (build_udp cur n) @ [0, 0]"
  by (simp add: store_udphdr_def udp_pre_def build_udp_def zero_udphdr_def st16_def)

lemma length_udp_pre [simp]: "length (udp_pre h) = 6"
  by (simp add: udp_pre_def)

lemma udp_packet_accepts:
  assumes "udp_addrs_ok cur" "length data \<le> 65400"
  shows "receiver_accepts (u_version cur) 17 (udp_packet cur data)"
  unfolding udp_packet_eq IPPROTO_UDP_def
proof (rule ip_part_accepts)
  fix ph :: bytes
  assume ph: "even (length ph)" "length ph \<le> 40"
    and part: "snd (ip_part (u_version cur) (u_saddr cur) (u_daddr cur) 17
      (length (store_udphdr (udp_filled cur data) @ data))) = calc_checksum 0 ph"
  define c where "c = NOT (calc_checksum (calc_checksum (calc_checksum (calc_checksum 0 ph)
    (udp_pre (build_udp cur (length data)) @ [0, 0] @ [])) []) data)"
  have "even (length (udp_pre (build_udp cur (length data)) @ [0, 0]))" by simp
  then have "store_udphdr (udp_filled cur data) = udp_pre (build_udp cur (length data)) @ st16 c"
    using part calc.chain [of "udp_pre (build_udp cur (length data)) @ [0, 0]" "[]"]
    by (simp add: udp_filled_def store_udphdr_check c_def store_build_udp IPPROTO_UDP_def)
  then show "calc_checksum 0 (ph @ store_udphdr (udp_filled cur data) @ data) = 0xFFFF"
    using calc.segment_verifies [of ph "udp_pre (build_udp cur (length data))" "[]" "[]" data c] ph assms(2)
    by (simp add: c_def)
qed (use assms in \<open>simp_all add: udp_addrs_ok_def\<close>)

text \<open>
  For every UDP session and every payload that fits, a receiver accepts the packet \<open>write_udp\<close>
  builds: the IPv4 header sums to 0xFFFF, and so does the datagram behind the pseudo header of the
  packet's own addresses.
\<close>

theorem udp_packet_verifies:
  assumes "udp_addrs_ok cur" "length data \<le> 65400"
  shows "receiver_accepts (u_version cur) 17 (udp_packet cur data)"
  using assms by (rule udp_packet_accepts)

theorem udp_packet_verifies_witness:
  "receiver_accepts 4 17 (udp_packet sample_udp [1, 2, 3])"
  using udp_packet_verifies [of sample_udp "[1, 2, 3]"]
  by (simp add: udp_addrs_ok_def addr_ok_def sample_udp_def)

text \<open>
  C21: A client that parses a packet of \<open>write_udp\<close> finds the remote end as the source and itself as
  the destination (addresses and ports exchanged), protocol 17, the packet's own length in the IP
  header, the datagram's length in the UDP header, and the payload.
\<close>

theorem udp_packet_reads_back:
  assumes "udp_addrs_ok cur" "length data \<le> 65400" and "p = udp_packet cur data"
    and "h = ip_hdr_len (u_version cur)"
  shows "ip_ends (u_version cur) p = Inr (if u_version cur = 4 then ip4 (u_daddr cur) else u_daddr cur,
      if u_version cur = 4 then ip4 (u_saddr cur) else u_saddr cur, 17, length p)
    \<and> (\<exists>u. load_udphdr (drop h p) = Inr u \<and> uh_source u = u_dest cur \<and> uh_dest u = u_source cur
      \<and> unat (ntohs (uh_len u)) = 8 + length data)
    \<and> drop (h + 8) p = data"
proof -
  let ?seg = "store_udphdr (udp_filled cur data) @ data"
  have ok: "addr_ok (u_version cur) (u_saddr cur)" "addr_ok (u_version cur) (u_daddr cur)"
    using assms(1) by (simp_all add: udp_addrs_ok_def)
  have seg: "length ?seg < 65500" using assms(2) by simp
  have lenp: "length p = h + length ?seg"
    by (simp add: assms(3,4) udp_packet_eq length_ip_part ok)
  have drop: "drop h p = ?seg"
    unfolding assms(3,4) udp_packet_eq by (simp add: length_ip_part ok)
  have "drop (h + 8) p = data"
    using arg_cong [OF drop, of "drop 8"] by (simp add: add.commute)
  moreover have "load_udphdr (drop h p) = Inr (udp_filled cur data)"
    unfolding drop by (rule load_store_udphdr)
  moreover have "unat (ntohs (uh_len (udp_filled cur data))) = 8 + length data"
    using assms(2) by (simp add: udp_filled_def build_udp_def unsigned_of_nat take_bit_nat_eq_self
        del: of_nat_add)
  moreover have "ip_ends (u_version cur) p = Inr (if u_version cur = 4 then ip4 (u_daddr cur) else u_daddr cur,
      if u_version cur = 4 then ip4 (u_saddr cur) else u_saddr cur, 17, length p)"
    using ip_part_reads_back [OF ok seg, of 17] lenp
    by (simp add: assms(3,4) udp_packet_eq IPPROTO_UDP_def length_ip_part ok)
  ultimately show ?thesis by (auto simp: udp_filled_def build_udp_def)
qed

theorem udp_packet_reads_back_witness:
  "drop 28 (udp_packet sample_udp [1, 2, 3]) = [1, 2, 3]"
  using udp_packet_reads_back [of sample_udp "[1, 2, 3]", OF _ _ refl refl]
  by (simp add: udp_addrs_ok_def addr_ok_def ip_hdr_len_def sample_udp_def)

end
