(* ===== verification/Dhcp.thy ===== *)
theory Dhcp
  imports Udp_Output
begin

text \<open>
  \<open>check_dhcp\<close> of \<open>dhcp.c\<close>: the built-in answer to DHCP requests of a tethered device. The response
  is a block of 500 bytes; every store into it is checked.
\<close>

section \<open>The code\<close>

text \<open>\<open>struct dhcp_packet\<close>: its size and the offsets of the fields the code uses.\<close>

definition DHCP_PACKET_SIZE :: nat where "DHCP_PACKET_SIZE = 240"

definition DHCP_OPTION_MAGIC_NUMBER :: u32 where "DHCP_OPTION_MAGIC_NUMBER = 0x63825363"

record dhcp_request =
  dh_opcode :: byte
  dh_htype :: byte
  dh_hlen :: byte
  dh_siaddr :: bytes
  dh_option_format :: u32

definition load_dhcp :: "bytes \<Rightarrow> dhcp_request result" where
  "load_dhcp p =
     (if DHCP_PACKET_SIZE \<le> length p
      then Inr \<lparr>dh_opcode = p ! 0, dh_htype = p ! 1, dh_hlen = p ! 2, dh_siaddr = take 4 (drop 20 p),
                dh_option_format = ld32 (p ! 236) (p ! 237) (p ! 238) (p ! 239)\<rparr>
      else Inl OobRead)"

fun wr_all :: "bytes \<Rightarrow> (nat \<times> bytes) list \<Rightarrow> bytes result" where
  "wr_all p [] = Inr p"
| "wr_all p ((i, b) # ws) = rbind (wr_bytes p i b) (\<lambda>p. wr_all p ws)"

text \<open>The fields of the response, each at its offset, over the copy of the request.\<close>

definition dhcp_fields :: "bool \<Rightarrow> (nat \<times> bytes) list" where
  "dhcp_fields discover =
     [(0, [if discover then 2 else 4]), (8, [0, 0]), (10, [0, 0]), (12, [0, 0, 0, 0]),
      (16, [10, 1, 10, 2]), (20, [10, 1, 10, 1]), (24, [0, 0, 0, 0])]"

text \<open>
  The options, from \<open>options\<close> on: message type, subnet mask, gateway, lease time (a native store),
  server, DNS server, end.
\<close>

definition dhcp_options :: "bool \<Rightarrow> bytes" where
  "dhcp_options discover =
     [53, 1, if discover then 2 else 5] @ [1, 4, 255, 255, 255, 0] @ [3, 4, 10, 1, 10, 1]
     @ [51, 4] @ st32 3600 @ [54, 4, 10, 1, 10, 1] @ [6, 4, 8, 8, 8, 8] @ [255]"

text \<open>\<open>response + sizeof(struct dhcp_packet)\<close> is pointer arithmetic in units of the struct.\<close>

definition dhcp_options_offset :: nat where
  "dhcp_options_offset = DHCP_PACKET_SIZE * DHCP_PACKET_SIZE"

definition check_dhcp :: "sys \<Rightarrow> udp_session \<Rightarrow> bytes \<Rightarrow> nat \<Rightarrow> trace \<Rightarrow> (int \<times> udp_session \<times> trace) result" where
  "check_dhcp sys u data datalen tr =
     (if datalen < DHCP_PACKET_SIZE then Inr (-1, u, tr)
      else rbind (load_dhcp data) (\<lambda>request.
        if ntohl (dh_option_format request) \<noteq> DHCP_OPTION_MAGIC_NUMBER then Inr (-1, u, tr)
        else if dh_htype request \<noteq> 1 \<or> dh_hlen request \<noteq> 6 then Inr (-1, u, tr)
        else if dh_opcode request = 1 then
          let response = replicate 500 0;
              u = u\<lparr>u_saddr := [10, 1, 10, 1] @ drop 4 (u_saddr u)\<rparr>;
              discover = (dh_siaddr request = [0, 0, 0, 0])
          in rbind (wr_bytes response 0 (take DHCP_PACKET_SIZE data)) (\<lambda>response.
             rbind (wr_all response (dhcp_fields discover)) (\<lambda>response.
             rbind (wr_all response
               (map (\<lambda>(i, b). (dhcp_options_offset + i, [b])) (enumerate 0 (dhcp_options discover)))) (\<lambda>response.
             let (_, tr) = write_udp sys u response tr in Inr (0, u, tr))))
        else Inr (0, u, tr)))"

section \<open>What it does\<close>

lemma wr_all_in: "list_all (\<lambda>(i, b). i + length b \<le> length p) ws \<Longrightarrow> \<exists>q. wr_all p ws = Inr q \<and> length q = length p"
proof (induction ws arbitrary: p)
  case (Cons w ws)
  obtain i b where w: "w = (i, b)" by force
  define q where "q = take i p @ b @ drop (i + length b) p"
  have q: "wr_bytes p i b = Inr q" "length q = length p"
    using Cons.prems w by (simp_all add: q_def)
  then show ?case using Cons.IH [of q] Cons.prems by (auto simp: w)
qed simp

definition dhcp_valid :: "bytes \<Rightarrow> bool" where
  "dhcp_valid p \<longleftrightarrow> [p ! 236, p ! 237, p ! 238, p ! 239] = [0x63, 0x82, 0x53, 0x63] \<and> p ! 1 = 1 \<and> p ! 2 = 6"

lemma ld32_magic:
  "ntohl (ld32 a b c d) = DHCP_OPTION_MAGIC_NUMBER \<longleftrightarrow> [a, b, c, d] = [0x63, 0x82, 0x53, 0x63]"
proof
  assume "ntohl (ld32 a b c d) = DHCP_OPTION_MAGIC_NUMBER"
  then have "ld32 a b c d = ntohl DHCP_OPTION_MAGIC_NUMBER" by (metis ntohl_ntohl)
  also have "\<dots> = ld32 0x63 0x82 0x53 0x63" by (simp add: DHCP_OPTION_MAGIC_NUMBER_def ntohl_def ld32_def)
  finally show "[a, b, c, d] = [0x63, 0x82, 0x53, 0x63]" by (metis st32_ld32)
qed (simp add: DHCP_OPTION_MAGIC_NUMBER_def ntohl_def ld32_def)

lemma check_dhcp_eq:
  assumes "datalen < 240 \<or> 240 \<le> length data"
  shows "check_dhcp sys u data datalen tr =
    (if datalen < 240 \<or> \<not> dhcp_valid data then Inr (-1, u, tr)
     else if data ! 0 = 1 then Inl OobWrite else Inr (0, u, tr))"
proof (cases "datalen < 240 \<or> \<not> dhcp_valid data")
  case True
  then show ?thesis using assms
    by (auto simp: check_dhcp_def load_dhcp_def DHCP_PACKET_SIZE_def ld32_magic dhcp_valid_def)
next
  case False
  then have len: "240 \<le> length data" "240 \<le> datalen" "dhcp_valid data" using assms by simp_all
  define discover where "discover \<longleftrightarrow> take 4 (drop 20 data) = [0, 0, 0, 0]"
  define r0 where "r0 = take 240 data @ replicate 260 0"
  have r0: "wr_bytes (replicate 500 0) 0 (take 240 data) = Inr r0" "length r0 = 500"
    using len(1) by (simp_all add: r0_def)
  obtain r1 where r1: "wr_all r0 (dhcp_fields discover) = Inr r1" "length r1 = 500"
    using wr_all_in [of r0 "dhcp_fields discover"] by (auto simp: dhcp_fields_def r0(2))
  have "wr_all r1 (map (\<lambda>(i, b). (dhcp_options_offset + i, [b])) (enumerate 0 (dhcp_options discover)))
      = Inl OobWrite"
    using r1(2) by (simp add: dhcp_options_def dhcp_options_offset_def DHCP_PACKET_SIZE_def wr_bytes_out)
  then show ?thesis
    using len False r0(1) r1(1)
    by (auto simp: check_dhcp_def load_dhcp_def DHCP_PACKET_SIZE_def ld32_magic dhcp_valid_def discover_def Let_def)
qed

text \<open>
  C33: Every DHCP request that passes the checks (240 bytes, the magic number, Ethernet) with opcode 1
  makes the code write outside the 500 byte response, since the options are put 57600 bytes behind
  its start; a packet that fails a check is rejected (-1) and any other opcode is swallowed (0), both
  without a packet or a change of the session.
\<close>

theorem check_dhcp_outcome:
  assumes "datalen < 240 \<or> 240 \<le> length data"
  shows "check_dhcp sys u data datalen tr =
    (if datalen < 240 \<or> \<not> dhcp_valid data then Inr (-1, u, tr)
     else if data ! 0 = 1 then Inl OobWrite else Inr (0, u, tr))"
  by (rule check_dhcp_eq [OF assms])

theorem check_dhcp_outcome_witness:
  "check_dhcp calm_sys sample_udp ([1, 1, 6] @ replicate 233 0 @ [0x63, 0x82, 0x53, 0x63]) 240 [] = Inl OobWrite"
  by (subst check_dhcp_outcome) (simp_all add: dhcp_valid_def nth_append)

lemma check_dhcp_returns:
  assumes "check_dhcp sys u data datalen tr = Inr (r, u', tr')"
  shows "u' = u \<and> tr' = tr"
proof (cases "datalen < 240 \<or> 240 \<le> length data")
  case True
  with assms show ?thesis by (simp add: check_dhcp_eq split: if_splits)
next
  case False
  with assms show ?thesis by (simp add: check_dhcp_def load_dhcp_def DHCP_PACKET_SIZE_def)
qed

end
