(* ===== verification/Udp.thy ===== *)
theory Udp
  imports Udp_Output Dns Dhcp Session_Table
begin

text \<open>
  UDP sessions (\<open>udp.c\<close>): a datagram from the client (\<open>handle_udp\<close>), data or an error on the
  socket (\<open>check_udp_socket\<close>), the periodic check (\<open>check_udp_session\<close>). A session goes from
  \<open>UDP_ACTIVE\<close> over \<open>UDP_FINISHING\<close> to \<open>UDP_CLOSED\<close>; \<open>UDP_BLOCKED\<close> is set by \<open>block_udp\<close> only,
  which nothing calls.
\<close>

section \<open>The periodic check\<close>

definition UDP_KEEP_TIMEOUT :: int where "UDP_KEEP_TIMEOUT = 60"

definition check_udp_session ::
  "sys \<Rightarrow> udp_session \<Rightarrow> int \<Rightarrow> int \<Rightarrow> trace \<Rightarrow> int \<times> udp_session \<times> trace" where
  "check_udp_session sys s sessions maxsessions tr =
     (let now = sys_time sys tr;
          tr = tr @ [ETime];
          timeout = get_udp_timeout s sessions maxsessions;
          s = (if u_state s = UDP_ACTIVE \<and> u_time s + timeout < now
               then s\<lparr>u_state := UDP_FINISHING\<rparr> else s);
          (s, tr) =
            (if u_state s = UDP_FINISHING
             then let tr = tr @ [EClose (socket s)]; s = s\<lparr>socket := -1\<rparr>
                  in (s\<lparr>u_time := sys_time sys tr, u_state := UDP_CLOSED\<rparr>, tr @ [ETime])
             else (s, tr));
          s = (if u_state s = UDP_CLOSED \<and> (u_sent s \<noteq> 0 \<or> u_received s \<noteq> 0)
               then s\<lparr>u_sent := 0, u_received := 0\<rparr> else s)
      in (if (u_state s = UDP_CLOSED \<or> u_state s = UDP_BLOCKED) \<and> u_time s + UDP_KEEP_TIMEOUT < now
          then 1 else 0, s, tr))"

section \<open>The socket\<close>

text \<open>\<open>SOCK_DGRAM = 2\<close>, \<open>IPPROTO_UDP = 17\<close>; the results of the \<open>setsockopt\<close> calls are only logged.\<close>

definition udp_broadcast :: "udp_session \<Rightarrow> int \<Rightarrow> event list" where
  "udp_broadcast cur sock =
     (if u_version cur = 4
      then if ip4 (u_daddr cur) = [255, 255, 255, 255] then [ESetsockopt sock ''SO_BROADCAST''] else []
      else if take 1 (u_daddr cur) = [0xFF]
      then [ESetsockopt sock ''IPV6_MULTICAST_LOOP'', ESetsockopt sock ''IPV6_MULTICAST_HOPS'',
            ESetsockopt sock ''IPV6_ADD_MEMBERSHIP'']
      else [])"

definition open_udp_socket :: "sys \<Rightarrow> udp_session \<Rightarrow> trace \<Rightarrow> int \<times> trace" where
  "open_udp_socket sys cur tr =
     (let sock = sys_socket sys tr;
          tr = tr @ [ESocket (if u_version cur = 4 then PF_INET else PF_INET6) 2 17]
      in if sock < 0 then (-1, tr) else
      let prot = sys_protect sys tr sock; tr = tr @ [EProtect sock]
      in if \<not> prot then (-1, tr) else (sock, tr @ udp_broadcast cur sock))"

text \<open>
  \<open>malloc(mss)\<close> and \<open>recv\<close> into it: the bytes received, then what the block held before. The name
  buffer of \<open>parse_dns_response\<close> is on the stack.
\<close>

definition recv_buffer :: "sys \<Rightarrow> trace \<Rightarrow> nat \<Rightarrow> bytes \<Rightarrow> bytes" where
  "recv_buffer sys tr n b = b @ drop (length b) (map (sys_heap sys tr) [0..<n])"

definition check_udp_socket :: "sys \<Rightarrow> u32 \<Rightarrow> udp_session \<Rightarrow> trace \<Rightarrow> (udp_session \<times> trace) result" where
  "check_udp_socket sys evs s tr =
     (if has_event evs EPOLLERR
      then Inr (s\<lparr>u_time := sys_time sys tr, u_state := UDP_FINISHING\<rparr>, tr @ [ETime])
      else if has_event evs EPOLLIN then
        let s = s\<lparr>u_time := sys_time sys tr\<rparr>; tr = tr @ [ETime];
            mss = unat (u_mss s);
            received = sys_recv sys tr (socket s) mss; tr = tr @ [ERecv (socket s) mss]
        in case received of
             Inl e \<Rightarrow> Inr (if e \<noteq> EINTR \<and> e \<noteq> EAGAIN then s\<lparr>u_state := UDP_FINISHING\<rparr> else s, tr)
           | Inr b \<Rightarrow>
               if b = [] then Inr (s\<lparr>u_state := UDP_FINISHING\<rparr>, tr)
               else
                 let s = s\<lparr>u_received := u_received s + of_nat (length b)\<rparr>
                 in rbind (if ntohs (u_dest s) = 53
                           then parse_dns_response (recv_buffer sys tr mss b) (length b) (replicate 256 0)
                           else Inr ()) (\<lambda>_.
                    let (res, tr) = write_udp sys s b tr
                    in Inr (if res < 0 then s\<lparr>u_state := UDP_FINISHING\<rparr>
                            else if ntohs (u_dest s) = 53 then s\<lparr>u_state := UDP_FINISHING\<rparr> else s, tr))
      else Inr (s, tr))"

section \<open>A datagram from the client\<close>

record udp_input =
  ui_version :: int
  ui_saddr :: bytes
  ui_daddr :: bytes
  ui_hdr :: udphdr
  ui_data :: bytes
  ui_datalen :: nat

text \<open>The locals at the head of \<open>handle_udp\<close>; \<open>datalen\<close> is a \<open>size_t\<close>.\<close>

definition parse_udp :: "bytes \<Rightarrow> nat \<Rightarrow> nat \<Rightarrow> udp_input result" where
  "parse_udp pkt len off =
     rbind (rd pkt 0) (\<lambda>b0.
     let version = int (unat (drop_bit 4 b0)) in
     rbind (load_udphdr (drop off pkt)) (\<lambda>uh.
     rbind (if version = 4 then rbind (load_iphdr pkt) (\<lambda>ip. Inr (ip_saddr ip, ip_daddr ip))
            else rbind (load_ip6_hdr pkt) (\<lambda>ip. Inr (ip6_src ip, ip6_dst ip))) (\<lambda>(saddr, daddr).
       Inr \<lparr>ui_version = version, ui_saddr = saddr, ui_daddr = daddr, ui_hdr = uh,
            ui_data = drop (off + 8) pkt, ui_datalen = size_sub len (off + 8)\<rparr>)))"

definition udp_matches :: "udp_input \<Rightarrow> session \<Rightarrow> bool" where
  "udp_matches p s = (case s of
      UDP c \<Rightarrow> u_version c = ui_version p \<and>
        u_source c = uh_source (ui_hdr p) \<and> u_dest c = uh_dest (ui_hdr p) \<and>
        (if ui_version p = 4 then ip4 (u_saddr c) = ui_saddr p \<and> ip4 (u_daddr c) = ui_daddr p
         else u_saddr c = ui_saddr p \<and> u_daddr c = ui_daddr p)
    | _ \<Rightarrow> False)"

definition has_udp_session :: "arguments \<Rightarrow> bytes \<Rightarrow> nat \<Rightarrow> session list \<Rightarrow> bool result" where
  "has_udp_session args pkt off ss =
     rbind (load_udphdr (drop off pkt)) (\<lambda>uh.
       if ntohs (uh_dest uh) = 53 \<and> \<not> fwd53 args then Inr True
       else rbind (parse_udp pkt (length pkt) off) (\<lambda>p. Inr (find_idx (udp_matches p) ss \<noteq> None)))"

text \<open>\<open>UDP4_MAXMSG\<close> and \<open>UDP6_MAXMSG\<close>, from \<open>IP_MAXPACKET = IPV6_MAXPACKET = 65535\<close>.\<close>

definition udp_maxmsg :: "int \<Rightarrow> u16" where
  "udp_maxmsg version = (if version = 4 then of_nat (65535 - 20 - 8) else of_nat (65535 - 40 - 8))"

definition udp_new_session :: "sys \<Rightarrow> udp_input \<Rightarrow> int \<Rightarrow> trace \<Rightarrow> udp_session \<times> trace" where
  "udp_new_session sys p uid tr =
     (\<lparr>socket = -1, events = 0, u_time = sys_time sys tr, u_uid = uid, u_version = ui_version p,
       u_mss = udp_maxmsg (ui_version p), u_sent = 0, u_received = 0,
       u_saddr = ui_saddr p, u_source = uh_source (ui_hdr p),
       u_daddr = ui_daddr p, u_dest = uh_dest (ui_hdr p), u_state = UDP_ACTIVE\<rparr>, tr @ [ETime])"

text \<open>\<open>sendto\<close>: its length is cast to the 32 bit \<open>socklen_t\<close>.\<close>

definition udp_send :: "sys \<Rightarrow> udp_input \<Rightarrow> udp_session \<Rightarrow> trace \<Rightarrow> (int \<times> udp_session \<times> trace) result" where
  "udp_send sys p cur tr =
     (let cur = cur\<lparr>u_time := sys_time sys tr\<rparr>; tr = tr @ [ETime];
          addr = (if u_version cur = 4 then Addr4 (ip4 (u_daddr cur)) (u_dest cur)
                  else Addr6 (u_daddr cur) (u_dest cur))
      in rbind (rd_bytes (ui_data p) 0 (ui_datalen p mod 2 ^ 32)) (\<lambda>d.
         let (res, errno) = sys_sendto sys tr (socket cur) d addr; tr = tr @ [ESendto (socket cur) d addr]
         in Inr (if res \<noteq> int (ui_datalen p)
                 then if errno \<noteq> EINTR \<and> errno \<noteq> EAGAIN then (0, cur\<lparr>u_state := UDP_FINISHING\<rparr>, tr)
                      else (1, cur, tr)
                 else (1, cur\<lparr>u_sent := u_sent cur + of_nat (ui_datalen p)\<rparr>, tr))))"

definition udp_forward :: "sys \<Rightarrow> udp_input \<Rightarrow> udp_session \<Rightarrow> trace \<Rightarrow> (int \<times> udp_session \<times> trace) result" where
  "udp_forward sys p cur tr =
     rbind (if ntohs (uh_dest (ui_hdr p)) = 53
            then rbind (get_dns_query (ui_data p) (ui_datalen p) (replicate 256 0)) (\<lambda>_. Inr ())
            else Inr ()) (\<lambda>_.
     rbind (if ntohs (uh_source (ui_hdr p)) = 68 \<or> ntohs (uh_dest (ui_hdr p)) = 67
            then check_dhcp sys cur (ui_data p) (ui_datalen p) tr else Inr (-1, cur, tr)) (\<lambda>(dhcp, cur, tr).
       if dhcp \<ge> 0 then Inr (1, cur, tr) else udp_send sys p cur tr))"

definition handle_udp ::
  "sys \<Rightarrow> bytes \<Rightarrow> nat \<Rightarrow> nat \<Rightarrow> int \<Rightarrow> session list \<Rightarrow> trace \<Rightarrow> (int \<times> session list \<times> trace) result" where
  "handle_udp sys pkt len off uid ss tr =
     rbind (parse_udp pkt len off) (\<lambda>p.
       case find_idx (udp_matches p) ss of
         Some i \<Rightarrow>
           (case ss ! i of
              UDP cur \<Rightarrow> if u_state cur \<noteq> UDP_ACTIVE then Inr (0, ss, tr)
                         else rbind (udp_forward sys p cur tr) (\<lambda>(r, cur, tr). Inr (r, ss[i := UDP cur], tr))
            | _ \<Rightarrow> Inr (0, ss, tr))
       | None \<Rightarrow>
           let (s, tr) = udp_new_session sys p uid tr;
               (sock, tr) = open_udp_socket sys s tr
           in if sock < 0 then Inr (0, ss, tr)
              else
                let s = s\<lparr>socket := sock, events := EPOLLIN OR EPOLLERR\<rparr>;
                    tr = tr @ [EEpollAdd sock (EPOLLIN OR EPOLLERR)]
                in rbind (udp_forward sys p s tr) (\<lambda>(r, s, tr). Inr (r, UDP s # ss, tr)))"

text \<open>\<open>block_udp\<close>, which nothing calls; the fields it leaves uninitialised are zero here.\<close>

definition block_udp :: "sys \<Rightarrow> udp_input \<Rightarrow> int \<Rightarrow> session list \<Rightarrow> trace \<Rightarrow> session list \<times> trace" where
  "block_udp sys p uid ss tr =
     (UDP \<lparr>socket = -1, events = 0, u_time = sys_time sys tr, u_uid = uid, u_version = ui_version p,
       u_mss = 0, u_sent = 0, u_received = 0, u_saddr = ui_saddr p, u_source = uh_source (ui_hdr p),
       u_daddr = ui_daddr p, u_dest = uh_dest (ui_hdr p), u_state = UDP_BLOCKED\<rparr> # ss, tr @ [ETime])"

section \<open>The table of UDP sessions\<close>

type_synonym udp_flow = "int \<times> u16 \<times> u16 \<times> bytes \<times> bytes"

definition udp_ident :: "udp_session \<Rightarrow> udp_flow" where
  "udp_ident c = (u_version c, u_source c, u_dest c,
     if u_version c = 4 then ip4 (u_saddr c) else u_saddr c,
     if u_version c = 4 then ip4 (u_daddr c) else u_daddr c)"

definition udp_key :: "session \<Rightarrow> udp_flow option" where
  "udp_key s = (case s of UDP c \<Rightarrow> Some (udp_ident c) | _ \<Rightarrow> None)"

definition udp_flow :: "udp_input \<Rightarrow> udp_flow" where
  "udp_flow p = (ui_version p, uh_source (ui_hdr p), uh_dest (ui_hdr p), ui_saddr p, ui_daddr p)"

interpretation udp_table: session_table udp_matches udp_flow udp_key
  by unfold_locales
    (auto simp: udp_matches_def udp_key_def udp_ident_def udp_flow_def split: session.splits)

section \<open>The session invariant\<close>

definition udp_inv :: "udp_session \<Rightarrow> bool" where
  "udp_inv s \<longleftrightarrow> udp_addrs_ok s \<and>
     (u_state s \<in> {UDP_ACTIVE, UDP_FINISHING} \<and> 0 \<le> socket s \<or>
      u_state s \<in> {UDP_CLOSED, UDP_BLOCKED} \<and> socket s < 0)"

text \<open>The life of a session as an order: active, finishing, closed; blocked stands alone.\<close>

instantiation udp_state :: order
begin

definition less_eq_udp_state :: "udp_state \<Rightarrow> udp_state \<Rightarrow> bool" where
  "less_eq_udp_state a b \<longleftrightarrow>
     a = b \<or> a = UDP_ACTIVE \<and> b \<in> {UDP_FINISHING, UDP_CLOSED} \<or> a = UDP_FINISHING \<and> b = UDP_CLOSED"

definition less_udp_state :: "udp_state \<Rightarrow> udp_state \<Rightarrow> bool" where
  "less_udp_state a b \<longleftrightarrow> a \<le> b \<and> a \<noteq> b"

instance
  by standard (auto simp: less_eq_udp_state_def less_udp_state_def)

end

lemma udp_order [simp]:
  "UDP_ACTIVE \<le> UDP_FINISHING" "UDP_ACTIVE \<le> UDP_CLOSED" "UDP_FINISHING \<le> UDP_CLOSED"
  by (simp_all add: less_eq_udp_state_def)

definition udp_keeps :: "udp_session \<times> trace \<Rightarrow> udp_session \<times> trace \<Rightarrow> bool" where
  "udp_keeps c c' \<longleftrightarrow> udp_inv (fst c') \<and> udp_ident (fst c') = udp_ident (fst c) \<and>
     u_state (fst c) \<le> u_state (fst c') \<and>
     fd_step (socket (fst c)) (snd c) (socket (fst c')) (snd c')"

lemma udp_keeps_refl [intro]: "udp_inv s \<Longrightarrow> udp_keeps (s, tr) (s, tr)"
  by (simp add: udp_keeps_def)

lemma udp_keeps_trans [trans]: "udp_keeps a b \<Longrightarrow> udp_keeps b c \<Longrightarrow> udp_keeps a c"
  by (auto simp: udp_keeps_def intro: fd_step_trans)

text \<open>The steps that only append events and may set \<open>UDP_FINISHING\<close>.\<close>

lemma udp_keeps_quiet:
  assumes "udp_inv s" "u_state s \<in> {UDP_ACTIVE, UDP_FINISHING}" "udp_ident s' = udp_ident s"
    and "u_version s' = u_version s" "u_saddr s' = u_saddr s" "u_daddr s' = u_daddr s" "socket s' = socket s"
    and "u_state s' = u_state s \<or> u_state s' = UDP_FINISHING" "closes evs = []" "opens evs = []"
  shows "udp_keeps (s, tr) (s', tr @ evs)"
  using assms by (auto simp: udp_keeps_def udp_inv_def udp_addrs_ok_def intro: fd_step_silent)

text \<open>The three stages of the check.\<close>

definition udp_timed_out :: "sys \<Rightarrow> udp_session \<Rightarrow> int \<Rightarrow> int \<Rightarrow> trace \<Rightarrow> udp_session" where
  "udp_timed_out sys s n m tr =
     (if u_state s = UDP_ACTIVE \<and> u_time s + get_udp_timeout s n m < sys_time sys tr
      then s\<lparr>u_state := UDP_FINISHING\<rparr> else s)"

definition udp_closed :: "sys \<Rightarrow> udp_session \<Rightarrow> trace \<Rightarrow> udp_session \<times> trace" where
  "udp_closed sys s tr =
     (if u_state s = UDP_FINISHING
      then (s\<lparr>socket := -1, u_time := sys_time sys (tr @ [EClose (socket s)]), u_state := UDP_CLOSED\<rparr>,
            tr @ [EClose (socket s), ETime])
      else (s, tr))"

definition udp_reset_counters :: "udp_session \<Rightarrow> udp_session" where
  "udp_reset_counters s = (if u_state s = UDP_CLOSED \<and> (u_sent s \<noteq> 0 \<or> u_received s \<noteq> 0)
     then s\<lparr>u_sent := 0, u_received := 0\<rparr> else s)"

lemma check_udp_session_eq:
  "check_udp_session sys s n m tr =
     (let (s', tr') = udp_closed sys (udp_timed_out sys s n m tr) (tr @ [ETime]); s' = udp_reset_counters s'
      in (if (u_state s' = UDP_CLOSED \<or> u_state s' = UDP_BLOCKED) \<and> u_time s' + UDP_KEEP_TIMEOUT < sys_time sys tr
          then 1 else 0, s', tr'))"
  by (simp add: check_udp_session_def udp_timed_out_def udp_closed_def udp_reset_counters_def Let_def)

lemma udp_timed_out_keeps: "udp_inv s \<Longrightarrow> udp_keeps (s, tr) (udp_timed_out sys s n m tr, tr @ [ETime])"
  by (auto simp: udp_timed_out_def udp_keeps_def udp_inv_def udp_addrs_ok_def udp_ident_def fd_step_def)

lemma udp_closed_keeps: "udp_inv s \<Longrightarrow> udp_keeps (s, tr) (udp_closed sys s tr)"
  by (auto simp: udp_closed_def udp_keeps_def udp_inv_def udp_addrs_ok_def udp_ident_def fd_step_def)

lemma udp_reset_counters_keeps: "udp_inv s \<Longrightarrow> udp_keeps (s, tr) (udp_reset_counters s, tr)"
  by (auto simp: udp_reset_counters_def udp_keeps_def udp_inv_def udp_addrs_ok_def udp_ident_def)

lemma udp_keeps_inv: "udp_keeps c c' \<Longrightarrow> udp_inv (fst c')"
  by (simp add: udp_keeps_def)

lemma check_udp_session_keeps:
  assumes "udp_inv s" "check_udp_session sys s n m tr = (d, s', tr')"
  shows "udp_keeps (s, tr) (s', tr')"
proof -
  let ?s1 = "udp_timed_out sys s n m tr"
  obtain s2 tr2 where 2: "udp_closed sys ?s1 (tr @ [ETime]) = (s2, tr2)" by fastforce
  have k1: "udp_keeps (s, tr) (?s1, tr @ [ETime])" by (rule udp_timed_out_keeps [OF assms(1)])
  also have k2: "udp_keeps (?s1, tr @ [ETime]) (s2, tr2)"
    using udp_closed_keeps [of ?s1 "tr @ [ETime]" sys] udp_keeps_inv [OF k1] 2 by simp
  also have "udp_keeps (s2, tr2) (udp_reset_counters s2, tr2)"
    using udp_reset_counters_keeps udp_keeps_inv [OF k2] by simp
  finally show ?thesis using assms(2) 2 by (simp add: check_udp_session_eq Let_def)
qed

text \<open>The received datagram.\<close>

lemma check_udp_socket_read:
  assumes "\<not> has_event evs EPOLLERR" "has_event evs EPOLLIN" "b \<noteq> []"
    and "sys_recv sys (tr @ [ETime]) (socket s) (unat (u_mss s)) = Inr b"
    and "s1 = s\<lparr>u_time := sys_time sys tr, u_received := u_received s + of_nat (length b)\<rparr>"
    and "tr1 = tr @ [ETime, ERecv (socket s) (unat (u_mss s))]" "write_udp sys s1 b tr1 = (res, tr2)"
  shows "check_udp_socket sys evs s tr =
    rbind (if ntohs (u_dest s) = 53
           then parse_dns_response (recv_buffer sys tr1 (unat (u_mss s)) b) (length b) (replicate 256 0)
           else Inr ())
      (\<lambda>_. Inr (if res < 0 \<or> ntohs (u_dest s) = 53 then s1\<lparr>u_state := UDP_FINISHING\<rparr> else s1,
        tr1 @ [ETunWrite (udp_packet s1 b)]))"
proof -
  have "tr2 = tr1 @ [ETunWrite (udp_packet s1 b)]" by (rule write_udp_trace [OF assms(7)])
  then show ?thesis using assms by (simp add: check_udp_socket_def Let_def)
qed

lemma check_udp_socket_keeps:
  assumes "udp_inv s" "0 \<le> socket s" "check_udp_socket sys evs s tr = Inr (s', tr')"
  shows "udp_keeps (s, tr) (s', tr')"
proof -
  have st: "u_state s \<in> {UDP_ACTIVE, UDP_FINISHING}" using assms(1,2) by (auto simp: udp_inv_def)
  note quiet = udp_keeps_quiet [OF assms(1) st]
  consider (err) "has_event evs EPOLLERR" | (none) "\<not> has_event evs EPOLLERR" "\<not> has_event evs EPOLLIN"
    | (read) "\<not> has_event evs EPOLLERR" "has_event evs EPOLLIN" by blast
  then show ?thesis
  proof cases
    case err
    then show ?thesis using assms(3) by (auto simp: check_udp_socket_def udp_ident_def intro!: quiet)
  next
    case none
    then show ?thesis using assms(1,3) by (auto simp: check_udp_socket_def)
  next
    case read
    show ?thesis
    proof (cases "\<exists>b. b \<noteq> [] \<and> sys_recv sys (tr @ [ETime]) (socket s) (unat (u_mss s)) = Inr b")
      case True
      then obtain b where b: "b \<noteq> []" "sys_recv sys (tr @ [ETime]) (socket s) (unat (u_mss s)) = Inr b" by blast
      obtain res tr2 where w: "write_udp sys (s\<lparr>u_time := sys_time sys tr, u_received := u_received s + of_nat (length b)\<rparr>) b
          (tr @ [ETime, ERecv (socket s) (unat (u_mss s))]) = (res, tr2)" by fastforce
      show ?thesis
        using assms(3) unfolding check_udp_socket_read [OF read b refl refl w] rbind_eq_Inr
        by (auto simp: udp_ident_def intro!: quiet split: if_splits)
    next
      case False
      then show ?thesis
        using assms(3) read
        by (cases "sys_recv sys (tr @ [ETime]) (socket s) (unat (u_mss s))")
          (auto simp: check_udp_socket_def Let_def udp_ident_def intro!: quiet split: if_splits)
    qed
  qed
qed

lemma udp_send_cases:
  assumes "udp_send sys p s tr = Inr (r, s', tr')"
  obtains d sa n where "tr' = tr @ [ETime, ESendto (socket s) d sa]"
    "s' = s\<lparr>u_time := sys_time sys tr\<rparr> \<or> s' = s\<lparr>u_time := sys_time sys tr, u_state := UDP_FINISHING\<rparr> \<or>
     s' = s\<lparr>u_time := sys_time sys tr, u_sent := n\<rparr>"
proof -
  define sa where "sa = (if u_version s = 4 then Addr4 (ip4 (u_daddr s)) (u_dest s) else Addr6 (u_daddr s) (u_dest s))"
  obtain d where d: "rd_bytes (ui_data p) 0 (ui_datalen p mod 2 ^ 32) = Inr d"
    using assms by (auto simp: udp_send_def Let_def rbind_eq_Inr)
  obtain res e where e: "sys_sendto sys (tr @ [ETime]) (socket s) d sa = (res, e)" by fastforce
  have "(if res \<noteq> int (ui_datalen p)
      then if e \<noteq> EINTR \<and> e \<noteq> EAGAIN
           then (0, s\<lparr>u_time := sys_time sys tr, u_state := UDP_FINISHING\<rparr>, tr @ [ETime, ESendto (socket s) d sa])
           else (1, s\<lparr>u_time := sys_time sys tr\<rparr>, tr @ [ETime, ESendto (socket s) d sa])
      else (1, s\<lparr>u_time := sys_time sys tr, u_sent := u_sent s + of_nat (ui_datalen p)\<rparr>,
            tr @ [ETime, ESendto (socket s) d sa])) = (r, s', tr')"
    using assms d e by (simp add: udp_send_def Let_def sa_def cong: if_cong)
  then show thesis using that [of d sa "u_sent s + of_nat (ui_datalen p)"] by (auto split: if_splits)
qed

lemma udp_send_keeps:
  assumes "udp_inv s" "u_state s = UDP_ACTIVE" "udp_send sys p s tr = Inr (r, s', tr')"
  shows "udp_keeps (s, tr) (s', tr')"
  using assms(3)
proof (cases rule: udp_send_cases)
  case (1 d sa n)
  then show ?thesis
    using assms(2) by (auto simp: udp_ident_def intro!: udp_keeps_quiet [OF assms(1)])
qed

lemma udp_forward_keeps:
  assumes "udp_inv s" "u_state s = UDP_ACTIVE" "udp_forward sys p s tr = Inr (r, s', tr')"
  shows "udp_keeps (s, tr) (s', tr')"
proof -
  have "s' = s \<and> tr' = tr \<or> udp_send sys p s tr = Inr (r, s', tr')"
    using assms(3) by (auto simp: udp_forward_def rbind_eq_Inr split: if_splits dest!: check_dhcp_returns)
  then show ?thesis using udp_send_keeps [OF assms(1,2)] assms(1) by auto
qed

section \<open>The session list\<close>

definition udp_sessions_inv :: "session list \<Rightarrow> bool" where
  "udp_sessions_inv ss \<longleftrightarrow> distinct (udp_table.keys ss) \<and> (\<forall>c. UDP c \<in> set ss \<longrightarrow> udp_inv c)"

lemma udp_sessions_inv_update:
  assumes "udp_sessions_inv ss" "ss ! i = UDP c" "udp_inv c'" "udp_ident c' = udp_ident c"
  shows "udp_sessions_inv (ss[i := UDP c'])"
proof -
  have "udp_table.keys (ss[i := UDP c']) = udp_table.keys ss"
    by (rule udp_table.update_keys) (simp add: assms(2,4) udp_key_def)
  then show ?thesis
    using assms(1,3) set_update_subset_insert [of ss i "UDP c'"]
    by (auto simp: udp_sessions_inv_def)
qed

lemma parse_udp_addrs:
  "parse_udp pkt len off = Inr p \<Longrightarrow>
   (if ui_version p = 4 then length (ui_saddr p) = 4 \<and> length (ui_daddr p) = 4
    else length (ui_saddr p) = 16 \<and> length (ui_daddr p) = 16)"
  by (auto simp: parse_udp_def rbind_eq_Inr Let_def dest!: load_iphdr_addrs load_ip6_hdr_addrs split: if_splits)

text \<open>The session of a new flow, as it is registered: monitored, open and active.\<close>

lemma udp_new_session_inv:
  assumes "parse_udp pkt len off = Inr p" "udp_new_session sys p uid tr = (s, tr1)" "0 \<le> sock"
    and "c = s\<lparr>socket := sock, events := e\<rparr>"
  shows "udp_inv c \<and> u_state c = UDP_ACTIVE \<and> udp_key (UDP c) = Some (udp_flow p)"
proof -
  have "ip4 (ui_saddr p) = ui_saddr p \<and> ip4 (ui_daddr p) = ui_daddr p" if "ui_version p = 4"
    using parse_udp_addrs [OF assms(1)] that by (simp add: ip4_def)
  then show ?thesis
    using assms(2-4) parse_udp_addrs [OF assms(1)]
    by (auto simp: udp_new_session_def udp_inv_def udp_addrs_ok_def addr_ok_def udp_key_def udp_ident_def udp_flow_def)
qed

lemma open_udp_socket_mute: "open_udp_socket sys s tr = (sock, tr') \<Longrightarrow> mute tr tr'"
  by (auto simp: open_udp_socket_def udp_broadcast_def Let_def split: if_splits)

lemma handle_udp_cases [consumes 1, case_names same new found]:
  assumes "handle_udp sys pkt len off uid ss tr = Inr (r, ss', tr')"
  obtains "ss' = ss" "mute tr tr'"
  | p c0 tr0 c evs where "parse_udp pkt len off = Inr p" "find_idx (udp_matches p) ss = None"
      "udp_inv c0" "u_state c0 = UDP_ACTIVE" "udp_key (UDP c0) = Some (udp_flow p)"
      "udp_forward sys p c0 tr0 = Inr (r, c, tr')" "ss' = UDP c # ss"
      "tr0 = tr @ evs" "closes evs = []" "opens evs = [socket c0]" "\<forall>b. ETunWrite b \<notin> set evs"
  | p i c c' where "parse_udp pkt len off = Inr p" "find_idx (udp_matches p) ss = Some i"
      "ss ! i = UDP c" "u_state c = UDP_ACTIVE" "udp_forward sys p c tr = Inr (r, c', tr')" "ss' = ss[i := UDP c']"
proof -
  obtain p where p: "parse_udp pkt len off = Inr p"
    using assms by (auto simp: handle_udp_def rbind_eq_Inr)
  show thesis
  proof (cases "find_idx (udp_matches p) ss")
    case (Some i)
    then show thesis
      using assms p that(1) that(3) [OF p Some]
      by (auto simp: handle_udp_def rbind_eq_Inr split: session.splits if_splits)
  next
    case None
    obtain s tr1 where s: "udp_new_session sys p uid tr = (s, tr1)" by fastforce
    obtain sock tr2 where o: "open_udp_socket sys s tr1 = (sock, tr2)" by fastforce
    define c0 where "c0 = s\<lparr>socket := sock, events := EPOLLIN OR EPOLLERR\<rparr>"
    show thesis
    proof (cases "sock < 0")
      case True
      then show thesis using assms p None s o that(1) open_udp_socket_mute [OF o]
          by (auto simp: handle_udp_def udp_new_session_def mute_def)
    next
      case False
      then have "udp_inv c0 \<and> u_state c0 = UDP_ACTIVE \<and> udp_key (UDP c0) = Some (udp_flow p)"
        using udp_new_session_inv [OF p s _ c0_def] by simp
      moreover have "rbind (udp_forward sys p c0 (tr2 @ [EEpollAdd sock (EPOLLIN OR EPOLLERR)]))
          (\<lambda>(r, s, tr). Inr (r, UDP s # ss, tr)) = Inr (r, ss', tr')"
        using assms False by (simp add: handle_udp_def p None s o c0_def)
      moreover obtain evs where "tr2 @ [EEpollAdd sock (EPOLLIN OR EPOLLERR)] = tr @ evs"
        "closes evs = []" "opens evs = [socket c0]" "\<forall>b. ETunWrite b \<notin> set evs"
        using open_udp_socket_mute [OF o] s by (auto simp: udp_new_session_def mute_def c0_def)
      ultimately show thesis using that(2) [OF p None] by (auto simp: rbind_eq_Inr)
    qed
  qed
qed

lemma handle_udp_sessions:
  assumes "udp_sessions_inv ss" "handle_udp sys pkt len off uid ss tr = Inr (r, ss', tr')"
  shows "udp_sessions_inv ss' \<and> (ss' = ss \<or> (\<exists>c. ss' = UDP c # ss \<and> udp_key (UDP c) \<notin> udp_key ` set ss)
    \<or> (\<exists>i < length ss. \<exists>c c'. ss ! i = UDP c \<and> ss' = ss[i := UDP c'] \<and> udp_ident c' = udp_ident c
        \<and> u_state c \<le> u_state c'))"
  using assms(2)
proof (cases rule: handle_udp_cases)
  case same
  then show ?thesis using assms(1) by simp
next
  case (new p c0 tr0 c evs)
  then have "udp_keeps (c0, tr0) (c, tr')" by (intro udp_forward_keeps)
  then have c: "udp_inv c" "udp_key (UDP c) = Some (udp_flow p)"
    using new(5) by (simp_all add: udp_keeps_def udp_key_def)
  then have "udp_key (UDP c) \<notin> udp_key ` set ss"
    using new(2) by (auto simp: find_idx_None udp_table.matches_key)
  then show ?thesis
    using assms(1) c new(2,7) udp_table.register_distinct [of ss p "UDP c"]
    by (auto simp: udp_sessions_inv_def simp del: udp_table.keys_simps)
next
  case (found p i c c')
  then have i: "i < length ss" by (simp add: find_idx_Some)
  then have "udp_inv c" using assms(1) found(3) unfolding udp_sessions_inv_def by (metis nth_mem)
  then have "udp_keeps (c, tr) (c', tr')" using found(4,5) by (intro udp_forward_keeps)
  then have "udp_inv c' \<and> udp_ident c' = udp_ident c \<and> u_state c \<le> u_state c'"
    by (simp add: udp_keeps_def)
  then show ?thesis using udp_sessions_inv_update [OF assms(1) found(3)] found(3,6) i by blast
qed

lemma handle_udp_local:
  "handle_udp sys pkt len off uid ss tr = Inr (r, ss', tr') \<Longrightarrow> local_change is_UDP ss ss'"
  by (erule handle_udp_cases) (auto simp: find_idx_Some intro: local_change_add local_change_update)


section \<open>The life of a session\<close>

text \<open>What the event loop does with one session.\<close>

inductive udp_step :: "sys \<Rightarrow> udp_session \<times> trace \<Rightarrow> udp_session \<times> trace \<Rightarrow> bool" for sys where
  packet: "u_state s = UDP_ACTIVE \<Longrightarrow> udp_forward sys p s tr = Inr (r, s', tr') \<Longrightarrow> udp_step sys (s, tr) (s', tr')"
| readable: "0 \<le> socket s \<Longrightarrow> check_udp_socket sys evs s tr = Inr (s', tr') \<Longrightarrow> udp_step sys (s, tr) (s', tr')"
| check: "check_udp_session sys s n m tr = (d, s', tr') \<Longrightarrow> udp_step sys (s, tr) (s', tr')"

lemma udp_step_keeps: "udp_step sys c c' \<Longrightarrow> udp_inv (fst c) \<Longrightarrow> udp_keeps c c'"
  by (induction rule: udp_step.induct)
    (auto intro: udp_forward_keeps check_udp_socket_keeps check_udp_session_keeps)

lemma udp_steps_keep: "(udp_step sys)\<^sup>*\<^sup>* c c' \<Longrightarrow> udp_inv (fst c) \<Longrightarrow> udp_keeps c c'"
proof (induction rule: rtranclp_induct)
  case base
  then show ?case by (cases c) auto
next
  case (step y z)
  then have "udp_keeps c y" by simp
  then show ?case using step.hyps(2) udp_keeps_inv by (blast intro: udp_keeps_trans udp_step_keeps)
qed

text \<open>
  C10: Along every sequence of packets, socket events and checks, in any order, a UDP session goes
  only forward (active, finishing, closed), keeps its flow, and its socket is closed exactly once:
  when the session reaches \<open>UDP_CLOSED\<close>, and no other descriptor is closed.
\<close>

theorem udp_session_life_cycle:
  assumes "udp_inv s" "(udp_step sys)\<^sup>*\<^sup>* (s, tr) (s', tr')"
  shows "udp_inv s' \<and> udp_ident s' = udp_ident s \<and> u_state s \<le> u_state s'
    \<and> (\<exists>evs. tr' = tr @ evs \<and> closes evs = (if 0 \<le> socket s \<and> u_state s' = UDP_CLOSED then [socket s] else []))"
proof -
  have "udp_keeps (s, tr) (s', tr')" by (rule udp_steps_keep [OF assms(2)]) (simp add: assms(1))
  with assms(1) show ?thesis
    by (auto simp: udp_keeps_def udp_inv_def less_eq_udp_state_def fd_step_def)
qed

lemma sample_udp_inv: "udp_inv sample_udp"
  by (simp add: udp_inv_def udp_addrs_ok_def addr_ok_def sample_udp_def)

theorem udp_session_life_cycle_witness:
  "\<exists>s' tr'. (udp_step calm_sys)\<^sup>*\<^sup>* (sample_udp, replicate 1 ETime) (s', tr') \<and> u_state s' = UDP_CLOSED \<and> closes tr' = [3]"
proof -
  obtain d s' tr' where c: "check_udp_session calm_sys sample_udp 0 10 (replicate 1 ETime) = (d, s', tr')"
    by (rule prod_cases3)
  then have st: "u_state s' = UDP_CLOSED"
    by (auto simp: check_udp_session_def Let_def sample_udp_def get_udp_timeout_def ntohs_def scale_timeout_nonneg)
  from c have steps: "(udp_step calm_sys)\<^sup>*\<^sup>* (sample_udp, replicate 1 ETime) (s', tr')"
    by (intro r_into_rtranclp udp_step.check)
  from udp_session_life_cycle [OF sample_udp_inv steps] st steps show ?thesis
    by (auto simp: sample_udp_def intro!: exI [of _ s'] exI [of _ tr'])
qed

text \<open>
  C22: A UDP session idle for longer than its timeout is closed by the next check - state
  \<open>UDP_CLOSED\<close>, the socket closed and set to -1 - and the first check more than 60 seconds later
  asks for its removal, whatever the numbers of sessions are by then.
\<close>

theorem idle_udp_session_is_removed:
  assumes "u_state s = UDP_ACTIVE" "u_time s + get_udp_timeout s n m < sys_time sys tr"
    and "check_udp_session sys s n m tr = (d, s1, tr1)" "u_time s1 + 60 < sys_time sys tr2"
  shows "u_state s1 = UDP_CLOSED \<and> socket s1 = -1 \<and> tr1 = tr @ [ETime, EClose (socket s), ETime]
    \<and> u_time s1 = sys_time sys (tr @ [ETime, EClose (socket s)])
    \<and> fst (check_udp_session sys s1 n' m' tr2) = 1"
proof -
  define c where "c = s\<lparr>socket := -1, u_time := sys_time sys (tr @ [ETime, EClose (socket s)]), u_state := UDP_CLOSED\<rparr>"
  have "s1 = udp_reset_counters c" "tr1 = tr @ [ETime, EClose (socket s), ETime]"
    using assms(1-3) by (simp_all add: check_udp_session_eq udp_timed_out_def udp_closed_def Let_def c_def)
  moreover have r: "u_state (udp_reset_counters c) = u_state c \<and> socket (udp_reset_counters c) = socket c
    \<and> u_time (udp_reset_counters c) = u_time c" for c
    by (simp add: udp_reset_counters_def)
  ultimately have s1: "u_state s1 = UDP_CLOSED" "socket s1 = -1" "tr1 = tr @ [ETime, EClose (socket s), ETime]"
    "u_time s1 = sys_time sys (tr @ [ETime, EClose (socket s)])" using r [of c] by (simp_all add: c_def)
  moreover have "fst (check_udp_session sys s1 n' m' tr2) = 1"
    using s1 r [of s1] assms(4)
    by (simp add: check_udp_session_eq udp_timed_out_def udp_closed_def Let_def UDP_KEEP_TIMEOUT_def)
  ultimately show ?thesis by simp
qed

theorem idle_udp_session_is_removed_witness:
  "\<exists>s1. fst (check_udp_session calm_sys s1 3 10 (replicate 99 ETime)) = 1 \<and> socket s1 = -1"
proof -
  obtain d s1 tr1 where c: "check_udp_session calm_sys sample_udp 0 10 [ETime] = (d, s1, tr1)"
    by (rule prod_cases3)
  then have "u_time s1 = 3000"
    by (auto simp: check_udp_session_def Let_def sample_udp_def get_udp_timeout_def ntohs_def scale_timeout_nonneg)
  with idle_udp_session_is_removed [OF _ _ c, of "replicate 99 ETime" 3 10] show ?thesis
    by (auto simp: sample_udp_def get_udp_timeout_def ntohs_def scale_timeout_nonneg)
qed

section \<open>What goes through\<close>

text \<open>
  C18: A datagram of an active session, to no port with a special treatment (53, 67, from 68), is sent
  to the remote end of the session byte for byte in one \<open>sendto\<close>; the session stays active and counts
  the bytes if all were taken, stays active on a transient error, and finishes on any other.
\<close>

theorem udp_datagram_forwarded:
  assumes "parse_udp pkt len off = Inr p" "len = off + 8 + length d" "drop (off + 8) pkt = d @ rest"
    and "length d < 2 ^ 32" "find_idx (udp_matches p) ss = Some i" "ss ! i = UDP c" "u_state c = UDP_ACTIVE"
    and "ntohs (u_dest c) \<notin> {53, 67}" "ntohs (u_source c) \<noteq> 68"
    and "sa = (if u_version c = 4 then Addr4 (ip4 (u_daddr c)) (u_dest c) else Addr6 (u_daddr c) (u_dest c))"
    and "sys_sendto sys (tr @ [ETime]) (socket c) d sa = (res, errno)"
  shows "handle_udp sys pkt len off uid ss tr =
    (let c' = c\<lparr>u_time := sys_time sys tr\<rparr>; tr' = tr @ [ETime, ESendto (socket c) d sa]
     in if res = int (length d) then Inr (1, ss[i := UDP (c'\<lparr>u_sent := u_sent c + of_nat (length d)\<rparr>)], tr')
        else if errno = EINTR \<or> errno = EAGAIN then Inr (1, ss[i := UDP c'], tr')
        else Inr (0, ss[i := UDP (c'\<lparr>u_state := UDP_FINISHING\<rparr>)], tr'))"
proof -
  have p: "ui_data p = d @ rest" "ui_datalen p = length d"
    using assms(1-3) by (auto simp: parse_udp_def Let_def rbind_eq_Inr)
  have "udp_matches p (UDP c)" using assms(5,6) by (auto simp: find_idx_Some)
  then have "uh_dest (ui_hdr p) = u_dest c" "uh_source (ui_hdr p) = u_source c"
    by (simp_all add: udp_matches_def)
  then have "udp_forward sys p c tr = udp_send sys p c tr"
    using assms(8,9) by (simp add: udp_forward_def)
  moreover have "udp_send sys p c tr =
    (let c' = c\<lparr>u_time := sys_time sys tr\<rparr>; tr' = tr @ [ETime, ESendto (socket c) d sa]
     in if res = int (length d) then Inr (1, c'\<lparr>u_sent := u_sent c + of_nat (length d)\<rparr>, tr')
        else if errno = EINTR \<or> errno = EAGAIN then Inr (1, c', tr')
        else Inr (0, c'\<lparr>u_state := UDP_FINISHING\<rparr>, tr'))"
    using assms(4,10,11) p by (simp add: udp_send_def Let_def cong: if_cong)
  ultimately show ?thesis
    using assms(1,5-7) by (simp add: handle_udp_def Let_def)
qed

text \<open>
  C19: A datagram from the remote end reaches the client as one packet of \<open>write_udp\<close>; the session
  finishes after it exactly if the write failed or the session is a DNS one (port 53), whose
  response is walked over first: that walk stays inside its buffers for every response that leaves
  16 bytes of the block free, so the only other outcome is that it never ends.
\<close>

theorem udp_response_delivered:
  assumes "\<not> has_event evs EPOLLERR" "has_event evs EPOLLIN" "b \<noteq> []" "16384 < unat (u_mss s)"
    and "sys_recv sys (tr @ [ETime]) (socket s) (unat (u_mss s)) = Inr b" "length b + 16 \<le> unat (u_mss s)"
    and "s1 = s\<lparr>u_time := sys_time sys tr, u_received := u_received s + of_nat (length b)\<rparr>"
    and "tr1 = tr @ [ETime, ERecv (socket s) (unat (u_mss s))]"
  shows "check_udp_socket sys evs s tr \<in>
    {Inr (if fst (write_udp sys s1 b tr1) < 0 \<or> ntohs (u_dest s) = 53 then s1\<lparr>u_state := UDP_FINISHING\<rparr> else s1,
          tr1 @ [ETunWrite (udp_packet s1 b)])}
    \<union> (if ntohs (u_dest s) = 53 then {Inl Hang} else {})"
proof -
  obtain res tr2 where w: "write_udp sys s1 b tr1 = (res, tr2)" by fastforce
  let ?parse = "parse_dns_response (recv_buffer sys tr1 (unat (u_mss s)) b) (length b) (replicate 256 0)"
  have len: "length (recv_buffer sys tr1 (unat (u_mss s)) b) = unat (u_mss s)"
    using assms(6) by (simp add: recv_buffer_def)
  have "?parse \<notin> {Inl OobRead, Inl OobWrite}"
    by (rule dns_memory_safe [THEN conjunct2]) (use assms(4,6) len in simp_all)
  then consider "?parse = Inl Hang" | "?parse = Inr ()"
    by (cases ?parse) (use fault.exhaust in auto)
  then show ?thesis
    using check_udp_socket_read [OF assms(1-3,5,7,8) w] w by cases auto
qed

section \<open>Examples\<close>

text \<open>A datagram of the flow of \<open>sample_udp\<close>: 10.1.10.1:13330 to 8.8.8.8:80, three bytes.\<close>

definition sample_datagram :: bytes where
  "sample_datagram = [0x45, 0, 0, 31, 0, 0, 0, 0, 64, 17, 0, 0, 10, 1, 10, 1, 8, 8, 8, 8,
     0x34, 0x12, 0, 80, 0, 11, 0, 0] @ [1, 2, 3]"

definition sample_udp_input :: udp_input where
  "sample_udp_input = \<lparr>ui_version = 4, ui_saddr = [10, 1, 10, 1], ui_daddr = [8, 8, 8, 8],
     ui_hdr = \<lparr>uh_source = 0x1234, uh_dest = 0x5000, uh_len = 0x0B00, uh_check = 0\<rparr>,
     ui_data = [1, 2, 3], ui_datalen = 3\<rparr>"

lemma parse_sample_datagram: "parse_udp sample_datagram 31 20 = Inr sample_udp_input"
  by (simp add: parse_udp_def sample_datagram_def sample_udp_input_def load_udphdr_def load_iphdr_def
      decode_iphdr_def Let_def rd_def) (simp add: decode_udphdr_def ld16_def)

lemma sample_udp_matches: "udp_matches sample_udp_input (UDP sample_udp)"
  by (simp add: udp_matches_def sample_udp_input_def sample_udp_def ip4_def)

lemma sample_udp_sessions_inv: "udp_sessions_inv [UDP sample_udp]"
  using sample_udp_inv by (simp add: udp_sessions_inv_def udp_key_def)

lemma handle_sample_datagram:
  "\<exists>c. handle_udp calm_sys sample_datagram 31 20 0 [UDP sample_udp] []
    = Inr (1, [UDP c], [ETime, ESendto 3 [1, 2, 3] (Addr4 [8, 8, 8, 8] 0x5000)]) \<and> u_sent c = 3"
  using sample_udp_matches
  by (simp add: handle_udp_def parse_sample_datagram)
    (simp add: udp_forward_def udp_send_def sample_udp_input_def sample_udp_def ntohs_def ip4_def)


theorem udp_datagram_forwarded_witness:
  "\<exists>c. handle_udp calm_sys sample_datagram 31 20 0 [UDP sample_udp] []
    = Inr (1, [UDP c], [ETime, ESendto 3 [1, 2, 3] (Addr4 [8, 8, 8, 8] 0x5000)])"
proof -
  have "handle_udp calm_sys sample_datagram 31 20 0 [UDP sample_udp] [] =
    (let c' = sample_udp\<lparr>u_time := sys_time calm_sys []\<rparr>;
         tr' = [] @ [ETime, ESendto (socket sample_udp) [1, 2, 3] (Addr4 [8, 8, 8, 8] 0x5000)]
     in if 3 = int (length [1, 2, 3 :: byte])
        then Inr (1, [UDP sample_udp][0 := UDP (c'\<lparr>u_sent := u_sent sample_udp + of_nat (length [1, 2, 3 :: byte])\<rparr>)], tr')
        else if EAGAIN = EINTR \<or> EAGAIN = EAGAIN then Inr (1, [UDP sample_udp][0 := UDP c'], tr')
        else Inr (0, [UDP sample_udp][0 := UDP (c'\<lparr>u_state := UDP_FINISHING\<rparr>)], tr'))"
    by (rule udp_datagram_forwarded [OF parse_sample_datagram, where rest = "[]"])
      (use sample_udp_matches in \<open>simp_all add: sample_datagram_def sample_udp_def ntohs_def ip4_def\<close>)
  then show ?thesis by (simp add: sample_udp_def)
qed

theorem udp_response_delivered_witness:
  "check_udp_socket (calm_sys\<lparr>sys_recv := \<lambda>_ _ _. Inr [7, 8]\<rparr>) EPOLLIN sample_udp []
    = Inr (sample_udp\<lparr>u_received := 2\<rparr>,
        [ETime, ERecv 3 65507, ETunWrite (udp_packet (sample_udp\<lparr>u_received := 2\<rparr>) [7, 8])])"
proof -
  let ?sys = "calm_sys\<lparr>sys_recv := \<lambda>_ _ _. Inr [7, 8]\<rparr>"
  have "check_udp_socket ?sys EPOLLIN sample_udp [] \<in>
    {Inr (if fst (write_udp ?sys (sample_udp\<lparr>u_received := 2\<rparr>) [7, 8] [ETime, ERecv 3 65507]) < 0 \<or> ntohs (u_dest sample_udp) = 53
          then (sample_udp\<lparr>u_received := 2\<rparr>)\<lparr>u_state := UDP_FINISHING\<rparr> else sample_udp\<lparr>u_received := 2\<rparr>,
          [ETime, ERecv 3 65507] @ [ETunWrite (udp_packet (sample_udp\<lparr>u_received := 2\<rparr>) [7, 8])])}
    \<union> (if ntohs (u_dest sample_udp) = 53 then {Inl Hang} else {})"
    by (rule udp_response_delivered)
      (simp_all add: has_event_def EPOLLIN_def EPOLLERR_def sample_udp_def calm_sys_def)
  moreover have "ntohs (u_dest sample_udp) = 80" by (simp add: sample_udp_def ntohs_def)
  moreover have "\<not> fst (write_udp ?sys (sample_udp\<lparr>u_received := 2\<rparr>) [7, 8] [ETime, ERecv 3 65507]) < 0"
    by (simp add: write_udp_def calm_sys_def Let_def)
  ultimately show ?thesis by simp
qed

end
