(* ===== verification/Icmp.thy ===== *)
theory Icmp
  imports Ip_Output Session_Table
begin

text \<open>
  ICMP echo (\<open>icmp.c\<close>): a request of the client is sent from an unprivileged ICMP socket with its
  identifier inverted, a reply is given the session's identifier again. A session is the pair of
  addresses; it has no state but \<open>stop\<close>, and the check that closes its socket removes it.
\<close>

section \<open>The code\<close>

definition IPPROTO_ICMP :: byte where "IPPROTO_ICMP = 1"
definition IPPROTO_ICMPV6 :: byte where "IPPROTO_ICMPV6 = 58"
definition ICMP_ECHO :: byte where "ICMP_ECHO = 8"

definition check_icmp_session ::
  "sys \<Rightarrow> icmp_session \<Rightarrow> int \<Rightarrow> int \<Rightarrow> trace \<Rightarrow> int \<times> icmp_session \<times> trace" where
  "check_icmp_session sys s sessions maxsessions tr =
     (let now = sys_time sys tr;
          tr = tr @ [ETime];
          timeout = get_icmp_timeout s sessions maxsessions
      in if i_stop s \<or> i_time s + timeout < now
         then (1, s\<lparr>socket := -1\<rparr>, tr @ [EClose (socket s)])
         else (0, s, tr))"

definition open_icmp_socket :: "sys \<Rightarrow> icmp_session \<Rightarrow> trace \<Rightarrow> int \<times> trace" where
  "open_icmp_socket sys cur tr =
     (let sock = sys_socket sys tr;
          tr = tr @ [ESocket (if i_version cur = 4 then PF_INET else PF_INET6) 2 1]
      in if sock < 0 then (-1, tr) else
      let prot = sys_protect sys tr sock; tr = tr @ [EProtect sock]
      in if \<not> prot then (-1, tr) else (sock, tr))"

definition icmp_packet :: "icmp_session \<Rightarrow> bytes \<Rightarrow> bytes" where
  "icmp_packet cur data =
     (if i_version cur = 4
      then store_iphdr (build_ip4 (i_saddr cur) (i_daddr cur) IPPROTO_ICMP (20 + length data))
      else store_ip6_hdr (build_ip6 (i_saddr cur) (i_daddr cur) IPPROTO_ICMPV6 (length data))) @ data"

definition write_icmp :: "sys \<Rightarrow> icmp_session \<Rightarrow> bytes \<Rightarrow> trace \<Rightarrow> int \<times> trace" where
  "write_icmp sys cur data tr =
     (let buffer = icmp_packet cur data;
          res = sys_tun_write sys tr buffer;
          tr = tr @ [ETunWrite buffer]
      in (if res \<noteq> int (length buffer) then -1 else res, tr))"

text \<open>
  Setting \<open>icmp_id\<close> (offset 4) and the checksum (offset 2), which is summed over \<open>len\<close> bytes from
  \<open>csum\<close> on; the result is the buffer.
\<close>

definition icmp_rewrite :: "u16 \<Rightarrow> u16 \<Rightarrow> bytes \<Rightarrow> nat \<Rightarrow> bytes result" where
  "icmp_rewrite icmp_id csum buffer len =
     rbind (wr_bytes buffer 4 (st16 icmp_id)) (\<lambda>buffer.
     rbind (wr_bytes buffer 2 (st16 0)) (\<lambda>buffer.
     rbind (rd_bytes buffer 0 len) (\<lambda>m.
       wr_bytes buffer 2 (st16 (NOT (calc_checksum csum m))))))"

text \<open>\<open>ICMP4_MAXMSG\<close> and \<open>ICMP6_MAXMSG\<close>.\<close>

definition icmp_maxmsg :: "int \<Rightarrow> nat" where
  "icmp_maxmsg version = (if version = 4 then 65535 - 20 - 8 else 65535 - 40 - 8)"

text \<open>The length in the pseudo header is \<open>bytes - sizeof(struct ip6_hdr)\<close>, stored unconverted.\<close>

definition icmp_reply_csum :: "icmp_session \<Rightarrow> nat \<Rightarrow> u16" where
  "icmp_reply_csum s n =
     (if i_version s = 6
      then calc_checksum 0 (store_ip6_pseudo (i_daddr s) (i_saddr s) (word_of_int (int n - 40)) IPPROTO_ICMPV6)
      else 0)"

definition check_icmp_socket :: "sys \<Rightarrow> u32 \<Rightarrow> icmp_session \<Rightarrow> trace \<Rightarrow> (icmp_session \<times> trace) result" where
  "check_icmp_socket sys evs s tr =
     (if has_event evs EPOLLERR
      then Inr (s\<lparr>i_time := sys_time sys tr, i_stop := True\<rparr>, tr @ [ETime])
      else if has_event evs EPOLLIN then
        let s = s\<lparr>i_time := sys_time sys tr\<rparr>; tr = tr @ [ETime];
            blen = icmp_maxmsg (i_version s);
            received = sys_recv sys tr (socket s) blen; tr = tr @ [ERecv (socket s) blen]
        in case received of
             Inl e \<Rightarrow> Inr (if e \<noteq> EINTR \<and> e \<noteq> EAGAIN then s\<lparr>i_stop := True\<rparr> else s, tr)
           | Inr b \<Rightarrow>
               if b = [] then Inr (s\<lparr>i_stop := True\<rparr>, tr)
               else
                 let buffer = b @ drop (length b) (map (sys_heap sys tr) [0..<blen])
                 in rbind (icmp_rewrite (i_id s) (icmp_reply_csum s (length b)) buffer (length b)) (\<lambda>buffer.
                    let (res, tr) = write_icmp sys s (take (length b) buffer) tr
                    in Inr (if res < 0 then s\<lparr>i_stop := True\<rparr> else s, tr))
      else Inr (s, tr))"

section \<open>A request of the client\<close>

record icmp_input =
  ii_version :: int
  ii_saddr :: bytes
  ii_daddr :: bytes
  ii_type :: byte
  ii_id :: u16
  ii_icmp :: bytes
  ii_icmplen :: nat
  ii_csum :: u16 \<comment> \<open>of the pseudo header, for version 6\<close>

definition parse_icmp :: "bytes \<Rightarrow> nat \<Rightarrow> nat \<Rightarrow> icmp_input result" where
  "parse_icmp pkt len off =
     rbind (rd pkt 0) (\<lambda>b0.
     let version = int (unat (drop_bit 4 b0)) in
     rbind (rd_bytes pkt off 8) (\<lambda>h.
     rbind (if version = 4 then rbind (load_iphdr pkt) (\<lambda>ip. Inr (ip_saddr ip, ip_daddr ip, 0))
            else rbind (load_ip6_hdr pkt) (\<lambda>ip. Inr (ip6_src ip, ip6_dst ip,
              if version = 6
              then calc_checksum 0 (store_ip6_pseudo (ip6_dst ip) (ip6_src ip) (ucast (ip6_un1_plen ip)) (ip6_un1_nxt ip))
              else 0))) (\<lambda>(saddr, daddr, csum).
       Inr \<lparr>ii_version = version, ii_saddr = saddr, ii_daddr = daddr, ii_type = h ! 0,
            ii_id = ld16 (h ! 4) (h ! 5), ii_icmp = drop off pkt, ii_icmplen = size_sub len off, ii_csum = csum\<rparr>)))"

definition icmp_matches :: "icmp_input \<Rightarrow> session \<Rightarrow> bool" where
  "icmp_matches p s = (case s of
      ICMP c \<Rightarrow> \<not> i_stop c \<and> i_version c = ii_version p \<and>
        (if ii_version p = 4 then ip4 (i_saddr c) = ii_saddr p \<and> ip4 (i_daddr c) = ii_daddr p
         else i_saddr c = ii_saddr p \<and> i_daddr c = ii_daddr p)
    | _ \<Rightarrow> False)"

definition icmp_new_session :: "sys \<Rightarrow> icmp_input \<Rightarrow> int \<Rightarrow> trace \<Rightarrow> icmp_session \<times> trace" where
  "icmp_new_session sys p uid tr =
     (\<lparr>socket = -1, events = 0, i_time = sys_time sys tr, i_uid = uid, i_version = ii_version p,
       i_saddr = ii_saddr p, i_daddr = ii_daddr p, i_id = ii_id p, i_stop = False\<rparr>, tr @ [ETime])"

definition icmp_forward :: "sys \<Rightarrow> icmp_input \<Rightarrow> icmp_session \<Rightarrow> trace \<Rightarrow> (int \<times> icmp_session \<times> trace) result" where
  "icmp_forward sys p cur tr =
     rbind (icmp_rewrite (NOT (ii_id p)) (ii_csum p) (ii_icmp p) (ii_icmplen p)) (\<lambda>icmp.
       let cur = cur\<lparr>i_time := sys_time sys tr\<rparr>; tr = tr @ [ETime];
           addr = (if ii_version p = 4 then Addr4 (ii_daddr p) 0 else Addr6 (ii_daddr p) 0)
       in rbind (rd_bytes icmp 0 (ii_icmplen p mod 2 ^ 32)) (\<lambda>d.
          let (res, errno) = sys_sendto sys tr (socket cur) d addr; tr = tr @ [ESendto (socket cur) d addr]
          in Inr (if res \<noteq> int (ii_icmplen p) \<and> errno \<noteq> EINTR \<and> errno \<noteq> EAGAIN
                  then (0, cur\<lparr>i_stop := True\<rparr>, tr) else (1, cur, tr))))"

definition handle_icmp ::
  "sys \<Rightarrow> bytes \<Rightarrow> nat \<Rightarrow> nat \<Rightarrow> int \<Rightarrow> session list \<Rightarrow> trace \<Rightarrow> (int \<times> session list \<times> trace) result" where
  "handle_icmp sys pkt len off uid ss tr =
     rbind (parse_icmp pkt len off) (\<lambda>p.
       if ii_type p \<noteq> ICMP_ECHO then Inr (0, ss, tr)
       else case find_idx (icmp_matches p) ss of
         Some i \<Rightarrow>
           (case ss ! i of
              ICMP cur \<Rightarrow> rbind (icmp_forward sys p cur tr) (\<lambda>(r, cur, tr). Inr (r, ss[i := ICMP cur], tr))
            | _ \<Rightarrow> Inr (0, ss, tr))
       | None \<Rightarrow>
           let (s, tr) = icmp_new_session sys p uid tr;
               (sock, tr) = open_icmp_socket sys s tr
           in if sock < 0 then Inr (0, ss, tr)
              else
                let s = s\<lparr>socket := sock, events := EPOLLIN OR EPOLLERR\<rparr>;
                    tr = tr @ [EEpollAdd sock (EPOLLIN OR EPOLLERR)]
                in rbind (icmp_forward sys p s tr) (\<lambda>(r, s, tr). Inr (r, ICMP s # ss, tr)))"

section \<open>The table of ICMP sessions\<close>

type_synonym icmp_flow = "int \<times> bytes \<times> bytes"

definition icmp_ident :: "icmp_session \<Rightarrow> icmp_flow" where
  "icmp_ident c = (i_version c,
     if i_version c = 4 then ip4 (i_saddr c) else i_saddr c,
     if i_version c = 4 then ip4 (i_daddr c) else i_daddr c)"

text \<open>A stopped session is no longer in the table.\<close>

definition icmp_key :: "session \<Rightarrow> icmp_flow option" where
  "icmp_key s = (case s of ICMP c \<Rightarrow> if i_stop c then None else Some (icmp_ident c) | _ \<Rightarrow> None)"

definition icmp_flow :: "icmp_input \<Rightarrow> icmp_flow" where
  "icmp_flow p = (ii_version p, ii_saddr p, ii_daddr p)"

interpretation icmp_table: session_table icmp_matches icmp_flow icmp_key
  by unfold_locales
    (auto simp: icmp_matches_def icmp_key_def icmp_ident_def icmp_flow_def split: session.splits)

section \<open>The rewritten message\<close>

lemma icmp_rewrite_eq:
  assumes "m = [t, c, k0, k1, i0, i1] @ rest" "length m \<le> 131000"
    and "m' = [t, c] @ st16 (NOT (calc_checksum csum ([t, c] @ [0, 0] @ st16 icmp_id @ rest))) @ st16 icmp_id @ rest"
  shows "icmp_rewrite icmp_id csum (m @ junk) (length m) = Inr (m' @ junk)
    \<and> length m' = length m \<and> calc_checksum csum m' = 0xFFFF"
proof -
  have "icmp_rewrite icmp_id csum (m @ junk) (length m) = Inr (m' @ junk)"
    by (simp add: icmp_rewrite_def assms(1,3) st16_def)
  moreover have "calc_checksum csum m' = 0xFFFF"
    using calc.fill [of "[t, c]" "st16 icmp_id @ rest" csum] assms(1,2) by (simp add: assms(3))
  ultimately show ?thesis by (simp add: assms(1,3))
qed

section \<open>The session invariant\<close>

definition icmp_inv :: "icmp_session \<Rightarrow> bool" where
  "icmp_inv s \<longleftrightarrow> addr_ok (i_version s) (i_saddr s) \<and> addr_ok (i_version s) (i_daddr s) \<and> 0 \<le> socket s"

definition icmp_keeps :: "icmp_session \<times> trace \<Rightarrow> icmp_session \<times> trace \<Rightarrow> bool" where
  "icmp_keeps c c' \<longleftrightarrow> icmp_inv (fst c') \<and> icmp_ident (fst c') = icmp_ident (fst c) \<and>
     i_id (fst c') = i_id (fst c) \<and> (i_stop (fst c) \<longrightarrow> i_stop (fst c')) \<and>
     socket (fst c') = socket (fst c) \<and> silent (snd c) (snd c')"

lemma icmp_keeps_quiet:
  assumes "icmp_inv s" "closes evs = []" "opens evs = []"
    and "s' \<in> {s, s\<lparr>i_time := t\<rparr>, s\<lparr>i_stop := True\<rparr>, s\<lparr>i_time := t, i_stop := True\<rparr>}"
  shows "icmp_keeps (s, tr) (s', tr @ evs)"
  using assms by (auto simp: icmp_keeps_def icmp_inv_def icmp_ident_def)

lemma check_icmp_socket_read:
  assumes "\<not> has_event evs EPOLLERR" "has_event evs EPOLLIN" "b \<noteq> []"
    and "sys_recv sys (tr @ [ETime]) (socket s) (icmp_maxmsg (i_version s)) = Inr b"
    and "s1 = s\<lparr>i_time := sys_time sys tr\<rparr>" "tr1 = tr @ [ETime, ERecv (socket s) (icmp_maxmsg (i_version s))]"
    and "buffer = b @ drop (length b) (map (sys_heap sys tr1) [0..<icmp_maxmsg (i_version s)])"
  shows "check_icmp_socket sys evs s tr =
    rbind (icmp_rewrite (i_id s) (icmp_reply_csum s (length b)) buffer (length b)) (\<lambda>buffer.
      Inr (if fst (write_icmp sys s1 (take (length b) buffer) tr1) < 0 then s1\<lparr>i_stop := True\<rparr> else s1,
        tr1 @ [ETunWrite (icmp_packet s1 (take (length b) buffer))]))"
  unfolding assms(5-7) using assms(1-4)
  by (simp add: check_icmp_socket_def write_icmp_def icmp_reply_csum_def Let_def cong: if_cong)

lemma check_icmp_socket_keeps:
  assumes "icmp_inv s" "check_icmp_socket sys evs s tr = Inr (s', tr')"
  shows "icmp_keeps (s, tr) (s', tr')"
proof -
  note quiet = icmp_keeps_quiet [OF assms(1), where t = "sys_time sys tr"]
  consider (err) "has_event evs EPOLLERR" | (none) "\<not> has_event evs EPOLLERR" "\<not> has_event evs EPOLLIN"
    | (read) "\<not> has_event evs EPOLLERR" "has_event evs EPOLLIN" by blast
  then show ?thesis
  proof cases
    case err
    then show ?thesis using assms(2) by (auto simp: check_icmp_socket_def intro!: quiet)
  next
    case none
    then show ?thesis using assms(2) quiet [of "[]" s tr] by (auto simp: check_icmp_socket_def)
  next
    case read
    let ?n = "icmp_maxmsg (i_version s)"
    show ?thesis
    proof (cases "\<exists>b. b \<noteq> [] \<and> sys_recv sys (tr @ [ETime]) (socket s) ?n = Inr b")
      case True
      then obtain b where b: "b \<noteq> []" "sys_recv sys (tr @ [ETime]) (socket s) ?n = Inr b" by blast
      show ?thesis
        using assms(2) unfolding check_icmp_socket_read [OF read b refl refl refl] rbind_eq_Inr
        by (auto intro!: quiet split: if_splits)
    next
      case False
      then show ?thesis
        using assms(2) read
        by (cases "sys_recv sys (tr @ [ETime]) (socket s) ?n")
          (auto simp: check_icmp_socket_def Let_def intro!: quiet split: if_splits)
    qed
  qed
qed

lemma icmp_forward_eq:
  assumes "icmp_rewrite (NOT (ii_id p)) (ii_csum p) (ii_icmp p) (ii_icmplen p) = Inr m"
    and "rd_bytes m 0 (ii_icmplen p mod 2 ^ 32) = Inr d"
    and "sa = (if ii_version p = 4 then Addr4 (ii_daddr p) 0 else Addr6 (ii_daddr p) 0)"
    and "sys_sendto sys (tr @ [ETime]) (socket s) d sa = (res, errno)" "s1 = s\<lparr>i_time := sys_time sys tr\<rparr>"
  shows "icmp_forward sys p s tr =
    Inr (if res \<noteq> int (ii_icmplen p) \<and> errno \<noteq> EINTR \<and> errno \<noteq> EAGAIN
         then (0, s1\<lparr>i_stop := True\<rparr>, tr @ [ETime, ESendto (socket s) d sa])
         else (1, s1, tr @ [ETime, ESendto (socket s) d sa]))"
  unfolding assms(5) using assms(1,2,4) unfolding assms(3)
  by (simp add: icmp_forward_def Let_def cong: if_cong)

lemma icmp_forward_keeps:
  assumes "icmp_inv s" "icmp_forward sys p s tr = Inr (r, s', tr')"
  shows "icmp_keeps (s, tr) (s', tr')"
proof -
  obtain m d where m: "icmp_rewrite (NOT (ii_id p)) (ii_csum p) (ii_icmp p) (ii_icmplen p) = Inr m"
    "rd_bytes m 0 (ii_icmplen p mod 2 ^ 32) = Inr d"
    using assms(2) by (auto simp: icmp_forward_def Let_def rbind_eq_Inr)
  obtain res e where e: "sys_sendto sys (tr @ [ETime]) (socket s) d
      (if ii_version p = 4 then Addr4 (ii_daddr p) 0 else Addr6 (ii_daddr p) 0) = (res, e)" by fastforce
  show ?thesis
    using assms(2) unfolding icmp_forward_eq [OF m refl e refl]
    by (auto intro!: icmp_keeps_quiet [OF assms(1)] split: if_splits)
qed

definition icmp_sessions_inv :: "session list \<Rightarrow> bool" where
  "icmp_sessions_inv ss \<longleftrightarrow> distinct (icmp_table.keys ss) \<and> (\<forall>c. ICMP c \<in> set ss \<longrightarrow> icmp_inv c)"

lemma parse_icmp_addrs:
  "parse_icmp pkt len off = Inr p \<Longrightarrow>
   (if ii_version p = 4 then length (ii_saddr p) = 4 \<and> length (ii_daddr p) = 4
    else length (ii_saddr p) = 16 \<and> length (ii_daddr p) = 16)"
  by (auto simp: parse_icmp_def rbind_eq_Inr Let_def dest!: load_iphdr_addrs load_ip6_hdr_addrs split: if_splits)

lemma icmp_new_session_inv:
  assumes "parse_icmp pkt len off = Inr p" "icmp_new_session sys p uid tr = (s, tr1)" "0 \<le> sock"
    and "c = s\<lparr>socket := sock, events := e\<rparr>"
  shows "icmp_inv c \<and> icmp_key (ICMP c) = Some (icmp_flow p)"
proof -
  have "ip4 (ii_saddr p) = ii_saddr p \<and> ip4 (ii_daddr p) = ii_daddr p" if "ii_version p = 4"
    using parse_icmp_addrs [OF assms(1)] that by (simp add: ip4_def)
  then show ?thesis
    using assms(2-4) parse_icmp_addrs [OF assms(1)]
    by (auto simp: icmp_new_session_def icmp_inv_def addr_ok_def icmp_key_def icmp_ident_def icmp_flow_def)
qed

lemma open_icmp_socket_mute: "open_icmp_socket sys s tr = (sock, tr') \<Longrightarrow> mute tr tr'"
  by (auto simp: open_icmp_socket_def Let_def split: if_splits)

lemma handle_icmp_cases [consumes 1, case_names same new found]:
  assumes "handle_icmp sys pkt len off uid ss tr = Inr (r, ss', tr')"
  obtains "ss' = ss" "mute tr tr'"
  | p c0 tr0 c evs where "parse_icmp pkt len off = Inr p" "find_idx (icmp_matches p) ss = None"
      "icmp_inv c0" "icmp_key (ICMP c0) = Some (icmp_flow p)"
      "icmp_forward sys p c0 tr0 = Inr (r, c, tr')" "ss' = ICMP c # ss"
      "tr0 = tr @ evs" "closes evs = []" "opens evs = [socket c0]" "\<forall>b. ETunWrite b \<notin> set evs"
  | p i c c' where "parse_icmp pkt len off = Inr p" "find_idx (icmp_matches p) ss = Some i"
      "ss ! i = ICMP c" "icmp_forward sys p c tr = Inr (r, c', tr')" "ss' = ss[i := ICMP c']"
proof -
  obtain p where p: "parse_icmp pkt len off = Inr p"
    using assms by (auto simp: handle_icmp_def rbind_eq_Inr)
  show thesis
  proof (cases "ii_type p \<noteq> ICMP_ECHO")
    case True
    then show thesis using assms p that(1) by (simp add: handle_icmp_def)
  next
    case echo: False
    show thesis
    proof (cases "find_idx (icmp_matches p) ss")
      case (Some i)
      then show thesis
        using assms p echo that(1) that(3) [OF p Some]
        by (auto simp: handle_icmp_def rbind_eq_Inr split: session.splits if_splits)
    next
      case None
      obtain s tr1 where s: "icmp_new_session sys p uid tr = (s, tr1)" by fastforce
      obtain sock tr2 where o: "open_icmp_socket sys s tr1 = (sock, tr2)" by fastforce
      define c0 where "c0 = s\<lparr>socket := sock, events := EPOLLIN OR EPOLLERR\<rparr>"
      show thesis
      proof (cases "sock < 0")
        case True
        then show thesis using assms p echo None s o that(1) open_icmp_socket_mute [OF o]
          by (auto simp: handle_icmp_def icmp_new_session_def mute_def)
      next
        case False
        then have "icmp_inv c0 \<and> icmp_key (ICMP c0) = Some (icmp_flow p)"
          using icmp_new_session_inv [OF p s _ c0_def] by simp
        moreover have "rbind (icmp_forward sys p c0 (tr2 @ [EEpollAdd sock (EPOLLIN OR EPOLLERR)]))
            (\<lambda>(r, s, tr). Inr (r, ICMP s # ss, tr)) = Inr (r, ss', tr')"
          using assms False echo by (simp add: handle_icmp_def p None s o c0_def)
        moreover obtain evs where "tr2 @ [EEpollAdd sock (EPOLLIN OR EPOLLERR)] = tr @ evs"
        "closes evs = []" "opens evs = [socket c0]" "\<forall>b. ETunWrite b \<notin> set evs"
        using open_icmp_socket_mute [OF o] s by (auto simp: icmp_new_session_def mute_def c0_def)
      ultimately show thesis using that(2) [OF p None] by (auto simp: rbind_eq_Inr)
      qed
    qed
  qed
qed

lemma handle_icmp_sessions:
  assumes "icmp_sessions_inv ss" "handle_icmp sys pkt len off uid ss tr = Inr (r, ss', tr')"
  shows "icmp_sessions_inv ss' \<and> (ss' = ss \<or> (\<exists>c. ss' = ICMP c # ss)
    \<or> (\<exists>i < length ss. \<exists>c c'. ss ! i = ICMP c \<and> ss' = ss[i := ICMP c'] \<and> icmp_ident c' = icmp_ident c
        \<and> i_id c' = i_id c \<and> socket c' = socket c))"
  using assms(2)
proof (cases rule: handle_icmp_cases)
  case same
  then show ?thesis using assms(1) by simp
next
  case (new p c0 tr0 c evs)
  then have k: "icmp_keeps (c0, tr0) (c, tr')" by (intro icmp_forward_keeps)
  then have "icmp_inv c" "icmp_key (ICMP c) \<in> {None, Some (icmp_flow p)}"
    using new(4) by (auto simp: icmp_keeps_def icmp_key_def split: if_splits)
  then show ?thesis
    using assms(1) new(2,6) icmp_table.register_distinct [of ss p "ICMP c"]
      icmp_table.register_other [of ss "ICMP c"]
    by (auto simp: icmp_sessions_inv_def simp del: icmp_table.keys_simps)
next
  case (found p i c c')
  then have i: "i < length ss" "icmp_key (ICMP c) = Some (icmp_flow p)"
    by (auto simp: find_idx_Some icmp_table.matches_key)
  then have "icmp_inv c" using assms(1) found(3) unfolding icmp_sessions_inv_def by (metis nth_mem)
  then have "icmp_keeps (c, tr) (c', tr')" using found(4) by (intro icmp_forward_keeps)
  then have k: "icmp_inv c'" "icmp_ident c' = icmp_ident c" "i_id c' = i_id c" "socket c' = socket c"
    by (simp_all add: icmp_keeps_def)
  have "distinct (icmp_table.keys ss')"
  proof (cases "i_stop c'")
    case True
    then show ?thesis
      using icmp_table.update_drop [of "ICMP c'" ss i] assms(1)
      by (simp add: icmp_key_def found(5) icmp_sessions_inv_def)
  next
    case False
    have "icmp_key (ICMP c') = icmp_key (ss ! i)"
      using False k(2) i(2) found(3) by (simp add: icmp_key_def split: if_splits)
    from icmp_table.update_keys [OF this] show ?thesis
      using assms(1) by (simp add: found(5) icmp_sessions_inv_def)
  qed
  then have "icmp_sessions_inv ss'"
    using assms(1) k(1) set_update_subset_insert [of ss i "ICMP c'"]
    by (auto simp: icmp_sessions_inv_def found(5))
  then show ?thesis using found(3,5) i(1) k by blast
qed

lemma handle_icmp_local:
  "handle_icmp sys pkt len off uid ss tr = Inr (r, ss', tr') \<Longrightarrow> local_change is_ICMP ss ss'"
  by (erule handle_icmp_cases) (auto simp: find_idx_Some intro: local_change_add local_change_update)


section \<open>What goes through\<close>


text \<open>
  C25: A reply on an IPv4 session reaches the client as one packet from the remote end to the client
  whose header and ICMP checksums verify, with the session's identifier - that of the request which
  opened the session, whatever the socket put there - and every other byte as it came.
\<close>

theorem icmp_reply_delivered:
  assumes "\<not> has_event evs EPOLLERR" "has_event evs EPOLLIN" "i_version s = 4" "icmp_inv s"
    and "sys_recv sys (tr @ [ETime]) (socket s) 65507 = Inr ([t, c, k0, k1, i0, i1] @ rest)" "length rest \<le> 65000"
  shows "\<exists>s' p. check_icmp_socket sys evs s tr = Inr (s', tr @ [ETime, ERecv (socket s) 65507, ETunWrite p])
    \<and> ip_ends 4 p = Inr (ip4 (i_daddr s), ip4 (i_saddr s), 1, length p)
    \<and> calc_checksum 0 (take 20 p) = 0xFFFF \<and> calc_checksum 0 (drop 20 p) = 0xFFFF
    \<and> take 2 (drop 20 p) = [t, c] \<and> take 2 (drop 24 p) = st16 (i_id s) \<and> drop 26 p = rest"
proof -
  let ?b = "[t, c, k0, k1, i0, i1] @ rest" and ?tr1 = "tr @ [ETime, ERecv (socket s) 65507]"
  define ck where "ck = NOT (calc_checksum 0 ([t, c] @ [0, 0] @ st16 (i_id s) @ rest))"
  define m where "m = [t, c] @ st16 ck @ st16 (i_id s) @ rest"
  define junk where "junk = drop (length ?b) (map (sys_heap sys ?tr1) [0..<65507])"
  let ?s1 = "s\<lparr>i_time := sys_time sys tr\<rparr>" and ?p = "icmp_packet (s\<lparr>i_time := sys_time sys tr\<rparr>) m"
  let ?ip = "build_ip4 (i_saddr s) (i_daddr s) 1 (20 + length m)"
  have rw: "icmp_rewrite (i_id s) 0 (?b @ junk) (length ?b) = Inr (m @ junk)"
    and len: "length m = length ?b" and ok: "calc_checksum 0 m = 0xFFFF"
    using icmp_rewrite_eq [OF refl, of t c k0 k1 i0 i1 rest m 0 "i_id s" junk] assms(6)
    by (simp_all only: m_def ck_def) simp_all
  have max: "icmp_maxmsg (i_version s) = 65507" by (simp add: icmp_maxmsg_def assms(3))
  have "\<exists>s'. check_icmp_socket sys evs s tr = Inr (s', ?tr1 @ [ETunWrite ?p])"
    using check_icmp_socket_read [OF assms(1,2) _ _ refl refl refl, of ?b sys tr s] assms(5) rw
    by (simp only: max) (simp add: icmp_reply_csum_def assms(3) junk_def len)
  moreover have adr: "addr_ok 4 (i_saddr s)" "addr_ok 4 (i_daddr s)"
    using assms(3,4) by (simp_all add: icmp_inv_def)
  have p: "?p = store_iphdr ?ip @ m" by (simp add: icmp_packet_def assms(3) IPPROTO_ICMP_def)
  have "length (store_iphdr ?ip) = 20" using wf_build_ip4 [OF adr, of 1 "20 + length m"] by (simp add: wf_iphdr_def)
  then have "take 20 ?p = store_iphdr ?ip" "drop 20 ?p = m" "drop 24 ?p = drop 4 m" "drop 26 ?p = drop 6 m"
    by (simp_all add: p)
  moreover have "ip_ends 4 ?p = Inr (ip4 (i_daddr s), ip4 (i_saddr s), 1, length ?p)"
    using ip_part_reads_back [of 4 "i_saddr s" "i_daddr s" m 1] adr assms(6) \<open>length (store_iphdr ?ip) = 20\<close>
    by (simp add: ip_part4 Let_def p ip_hdr_len_def len)
  ultimately show ?thesis
    using ok build_ip4_verifies [OF adr, of 1 "20 + length m"]
    by (auto simp: m_def st16_def intro!: exI [of _ ?p])
qed

section \<open>Examples\<close>

definition sample_icmp :: icmp_session where
  "sample_icmp = \<lparr>socket = 3, events = 9, i_time = 0, i_uid = 0, i_version = 4,
     i_saddr = [10, 1, 10, 1], i_daddr = [8, 8, 8, 8], i_id = 0x1234, i_stop = False\<rparr>"

definition sample_echo :: bytes where
  "sample_echo = [0x45, 0, 0, 28, 0, 0, 0, 0, 64, 1, 0, 0, 10, 1, 10, 1, 8, 8, 8, 8] @ [8, 0, 0, 0, 0x34, 0x12, 0, 1]"

definition sample_echo_input :: icmp_input where
  "sample_echo_input = \<lparr>ii_version = 4, ii_saddr = [10, 1, 10, 1], ii_daddr = [8, 8, 8, 8], ii_type = 8,
     ii_id = 0x1234, ii_icmp = [8, 0, 0, 0, 0x34, 0x12, 0, 1], ii_icmplen = 8, ii_csum = 0\<rparr>"

lemma parse_sample_echo: "parse_icmp sample_echo 28 20 = Inr sample_echo_input"
  by (simp add: parse_icmp_def sample_echo_def sample_echo_input_def load_iphdr_def
      decode_iphdr_def Let_def rd_def ld16_def rd_bytes_def)

lemma sample_icmp_facts:
  "icmp_matches sample_echo_input (ICMP sample_icmp)" "icmp_inv sample_icmp" "icmp_sessions_inv [ICMP sample_icmp]"
  by (simp_all add: icmp_matches_def sample_echo_input_def sample_icmp_def ip4_def icmp_inv_def
      addr_ok_def icmp_sessions_inv_def icmp_key_def)



theorem icmp_reply_delivered_witness:
  "\<exists>s' p. check_icmp_socket (calm_sys\<lparr>sys_recv := \<lambda>_ _ _. Inr ([0, 0, 1, 1, 9, 9] @ [0, 1])\<rparr>) EPOLLIN sample_icmp []
      = Inr (s', [ETime, ERecv 3 65507, ETunWrite p]) \<and> take 2 (drop 24 p) = st16 0x1234"
proof -
  let ?sys = "calm_sys\<lparr>sys_recv := \<lambda>_ _ _. Inr ([0, 0, 1, 1, 9, 9] @ [0, 1])\<rparr>"
  have "sys_recv ?sys ([] @ [ETime]) (socket sample_icmp) 65507 = Inr ([0, 0, 1, 1, 9, 9] @ [0, 1])" by simp
  from icmp_reply_delivered [OF _ _ _ sample_icmp_facts(2) this, of EPOLLIN] show ?thesis
    by (simp add: has_event_def EPOLLIN_def EPOLLERR_def) (simp add: sample_icmp_def, blast)
qed

end
