(* ===== verification/Uid.thy ===== *)
theory Uid
  imports Util
begin

text \<open>
  \<open>get_uid\<close> and \<open>get_uid_sub\<close> of \<open>ip.c\<close>: the owner of a flow, from the socket tables in
  \<open>/proc/net\<close>. The files are a parameter: a file is the list of its lines, a line the four fields
  \<open>sscanf\<close> converts (local port, remote address in hexadecimal, remote port, uid), \<open>None\<close> where it
  converts fewer.
\<close>

section \<open>The code\<close>

record proc_line =
  pl_sport :: int
  pl_hex :: bytes
  pl_dport :: int
  pl_uid :: int

type_synonym proc = "string \<Rightarrow> proc_line option list option"

text \<open>\<open>htonl\<close> of each 32 bit word of the address.\<close>

fun swap_words :: "bytes \<Rightarrow> bytes" where
  "swap_words (a # b # c # d # r) = st32 (htonl (ld32 a b c d)) @ swap_words r"
| "swap_words r = r"

definition proc_file :: "int \<Rightarrow> byte \<Rightarrow> string option" where
  "proc_file version protocol =
     (if protocol = 1 \<and> version = 4 then Some ''/proc/net/icmp''
      else if protocol = 58 \<and> version = 6 then Some ''/proc/net/icmp6''
      else if protocol = 6 then Some (if version = 4 then ''/proc/net/tcp'' else ''/proc/net/tcp6'')
      else if protocol = 17 then Some (if version = 4 then ''/proc/net/udp'' else ''/proc/net/udp6'')
      else None)"

text \<open>A line is usable if its address has the right length, its port is set and its uid is not negative.\<close>

fun scan_uid :: "int \<Rightarrow> u16 \<Rightarrow> bytes \<Rightarrow> u16 \<Rightarrow> int \<Rightarrow> proc_line option list \<Rightarrow> int" where
  "scan_uid version sport daddr dport uid [] = uid"
| "scan_uid version sport daddr dport uid (None # ls) = scan_uid version sport daddr dport uid ls"
| "scan_uid version sport daddr dport uid (Some l # ls) =
     (if length (pl_hex l) = (if version = 4 then 8 else 32) \<and> pl_sport l > 0 \<and> pl_uid l \<ge> 0 \<and>
         pl_sport l = uint sport
      then if pl_dport l = uint dport \<and> swap_words (hex2bytes (pl_hex l)) = daddr
           then pl_uid l
           else scan_uid version sport daddr dport (pl_uid l) ls
      else scan_uid version sport daddr dport uid ls)"

definition get_uid_sub :: "proc \<Rightarrow> int \<Rightarrow> byte \<Rightarrow> u16 \<Rightarrow> bytes \<Rightarrow> u16 \<Rightarrow> int" where
  "get_uid_sub proc version protocol sport daddr dport =
     (case proc_file version protocol of None \<Rightarrow> -1
      | Some fn \<Rightarrow> (case proc fn of None \<Rightarrow> -1
                   | Some lines \<Rightarrow> scan_uid version sport daddr dport (-1) (tl lines)))"

definition get_uid :: "proc \<Rightarrow> int \<Rightarrow> byte \<Rightarrow> u16 \<Rightarrow> bytes \<Rightarrow> u16 \<Rightarrow> int" where
  "get_uid proc version protocol sport daddr dport =
     (let uid = (if version = 4
                 then get_uid_sub proc 6 protocol sport (replicate 10 0 @ [0xFF, 0xFF] @ daddr) dport
                 else -1)
      in if uid < 0 then get_uid_sub proc version protocol sport daddr dport else uid)"

section \<open>What it finds\<close>

text \<open>The usable lines of the local port, and those of the whole flow.\<close>

definition port_lines :: "int \<Rightarrow> u16 \<Rightarrow> proc_line option list \<Rightarrow> proc_line list" where
  "port_lines version sport ls = filter (\<lambda>l. length (pl_hex l) = (if version = 4 then 8 else 32) \<and>
     pl_sport l > 0 \<and> pl_uid l \<ge> 0 \<and> pl_sport l = uint sport) (map the (filter (\<lambda>l. l \<noteq> None) ls))"

definition flow_lines :: "int \<Rightarrow> u16 \<Rightarrow> bytes \<Rightarrow> u16 \<Rightarrow> proc_line option list \<Rightarrow> proc_line list" where
  "flow_lines version sport daddr dport ls =
     filter (\<lambda>l. pl_dport l = uint dport \<and> swap_words (hex2bytes (pl_hex l)) = daddr) (port_lines version sport ls)"

lemma htonl_ld32: "htonl (ld32 a b c d) = ld32 d c b a"
proof (rule bit_word_eqI)
  have m: "(0xFF0000 :: u32) = push_bit 16 (mask 8)" "(0xFF00 :: u32) = push_bit 8 (mask 8)"
    by (simp_all add: mask_eq_exp_minus_1)
  fix n assume "n < LENGTH(32)"
  then consider "n < 8" | "8 \<le> n" "n < 16" | "16 \<le> n" "n < 24" | "24 \<le> n" "n < 32"
    by fastforce
  then show "bit (htonl (ld32 a b c d)) n = bit (ld32 d c b a) n"
    by cases (auto simp: htonl_def ntohl_def ld32_def m bit_simps)
qed

lemma swap_words_4: "swap_words (a # b # c # d # r) = [d, c, b, a] @ swap_words r"
  by (simp add: htonl_ld32 st32_ld32)

lemma port_lines_simps [simp]:
  "port_lines version sport [] = []" "port_lines version sport (None # ls) = port_lines version sport ls"
  "port_lines version sport (Some l # ls) =
     (if length (pl_hex l) = (if version = 4 then 8 else 32) \<and> pl_sport l > 0 \<and> pl_uid l \<ge> 0 \<and>
         pl_sport l = uint sport then l # port_lines version sport ls else port_lines version sport ls)"
  by (simp_all add: port_lines_def)

lemma scan_uid_eq:
  "scan_uid version sport daddr dport uid ls =
     (case flow_lines version sport daddr dport ls of
        l # _ \<Rightarrow> pl_uid l
      | [] \<Rightarrow> (case rev (port_lines version sport ls) of l # _ \<Rightarrow> pl_uid l | [] \<Rightarrow> uid))"
proof (induction version sport daddr dport uid ls rule: scan_uid.induct)
  case (3 version sport daddr dport uid l ls)
  have "(case rev xs @ [l] of [] \<Rightarrow> uid | m # _ \<Rightarrow> pl_uid m)
      = (case rev xs of [] \<Rightarrow> pl_uid l | m # _ \<Rightarrow> pl_uid m)" for xs :: "proc_line list"
    by (cases "rev xs") simp_all
  then show ?case
    using 3 by (auto simp: flow_lines_def split: list.split)
qed (simp_all add: flow_lines_def split: list.split)

text \<open>
  C29: In a socket table the owner is that of the first line of the whole flow (local port, remote
  address and port) if there is one, else of the last line with the local port, else -1; the header
  line, lines that do not parse and entries without a port or a uid do not count.
\<close>

theorem get_uid_sub_finds_owner:
  assumes "proc_file version protocol = Some fn" "proc fn = Some (header # ls)"
  shows "get_uid_sub proc version protocol sport daddr dport =
     (case flow_lines version sport daddr dport ls of
        l # _ \<Rightarrow> pl_uid l
      | [] \<Rightarrow> (case rev (port_lines version sport ls) of l # _ \<Rightarrow> pl_uid l | [] \<Rightarrow> -1))"
  using assms by (simp add: get_uid_sub_def scan_uid_eq)

text \<open>An example table: 8.8.8.8:53 as the kernel prints it, after another socket of the same port.\<close>

definition sample_proc :: proc where
  "sample_proc fn = (if fn = ''/proc/net/udp'' then Some
     [None, Some \<lparr>pl_sport = 4660, pl_hex = cstr ''00000000'', pl_dport = 0, pl_uid = 1000\<rparr>,
      Some \<lparr>pl_sport = 4660, pl_hex = cstr ''08080408'', pl_dport = 53, pl_uid = 10001\<rparr>,
      Some \<lparr>pl_sport = 4660, pl_hex = cstr ''00000000'', pl_dport = 0, pl_uid = 1001\<rparr>] else None)"

theorem get_uid_sub_finds_owner_witness:
  "get_uid_sub sample_proc 4 17 4660 [8, 4, 8, 8] 53 = 10001"
proof -
  let ?ls = "tl (the (sample_proc ''/proc/net/udp''))"
  have "get_uid_sub sample_proc 4 17 4660 [8, 4, 8, 8] 53 =
     (case flow_lines 4 4660 [8, 4, 8, 8] 53 ?ls of
        l # _ \<Rightarrow> pl_uid l
      | [] \<Rightarrow> (case rev (port_lines 4 4660 ?ls) of l # _ \<Rightarrow> pl_uid l | [] \<Rightarrow> -1))"
    by (rule get_uid_sub_finds_owner [of _ _ "''/proc/net/udp''" _ None]) (simp_all add: proc_file_def sample_proc_def)
  also have "\<dots> = 10001"
    by (simp add: sample_proc_def flow_lines_def cstr_def char2nible_def swap_words_4
        del: swap_words.simps(1))
  finally show ?thesis .
qed

end
