(* ===== verification/Ip.thy ===== *)
theory Ip
  imports Tcp_Handle Udp Icmp Uid
begin

text \<open>
  A packet from the tun device (\<open>check_tun\<close>, \<open>handle_ip\<close> of \<open>ip.c\<close>): the checks of the IP header,
  the walk over IPv6 extension headers, the session limit, the owner of a new flow and the dispatch
  to the handler of the protocol.
\<close>

section \<open>The headers\<close>

definition IP_MF :: u16 where "IP_MF = 0x2000"

definition ANDROID_LOG_WARN :: int where "ANDROID_LOG_WARN = 5"

definition is_lower_layer :: "byte \<Rightarrow> bool" where
  "is_lower_layer protocol \<longleftrightarrow> protocol \<in> {0, 60, 43, 44, 51, 50, 135}"

definition is_upper_layer :: "byte \<Rightarrow> bool" where
  "is_upper_layer protocol \<longleftrightarrow> protocol \<in> {IPPROTO_TCP, IPPROTO_UDP, IPPROTO_ICMP, IPPROTO_ICMPV6}"

text \<open>\<open>ext->ip6e_nxt\<close> and \<open>ext->ip6e_len\<close> are the two bytes at \<open>pkt + off\<close>.\<close>

partial_function (option) ext_walk :: "bytes \<Rightarrow> byte \<Rightarrow> u16 \<Rightarrow> (byte \<times> u16) result option" where
  "ext_walk pkt protocol off =
     (case rd pkt (unat off) of Inl e \<Rightarrow> Some (Inl e) | Inr nxt \<Rightarrow>
      if is_lower_layer nxt \<and> \<not> is_upper_layer protocol then
        case rd pkt (unat off + 1) of Inl e \<Rightarrow> Some (Inl e) | Inr len \<Rightarrow>
          ext_walk pkt nxt (off + (8 + ucast len))
      else Some (Inr (protocol, off)))"

definition ip6_extensions :: "bytes \<Rightarrow> byte \<Rightarrow> (byte \<times> u16) result" where
  "ip6_extensions pkt nxt =
     (if is_upper_layer nxt then Inr (nxt, 0)
      else rbind (returned (ext_walk pkt nxt 40)) (\<lambda>(protocol, off).
        Inr (if is_upper_layer protocol then (protocol, off) else (nxt, 0))))"

record ip_input =
  pi_version :: int
  pi_protocol :: byte
  pi_saddr :: bytes
  pi_daddr :: bytes
  pi_off :: nat \<comment> \<open>\<open>payload - pkt\<close>\<close>

text \<open>\<open>(uint8_t) ((ip4hdr->ihl - 5) * 4)\<close> bytes of options behind the fixed header.\<close>

definition ip4_off :: "byte \<Rightarrow> nat" where
  "ip4_off ihl = 20 + unat (word_of_int ((int (unat ihl) - 5) * 4) :: byte)"

text \<open>\<open>None\<close>: the packet is dropped.\<close>

definition parse_ip4 :: "int \<Rightarrow> bytes \<Rightarrow> nat \<Rightarrow> ip_input option result" where
  "parse_ip4 loglevel pkt len =
     (if len < 20 then Inr None
      else rbind (load_iphdr pkt) (\<lambda>ip.
        if ip_frag_off ip AND IP_MF \<noteq> 0 then Inr None
        else if unat (ntohs (ip_tot_len ip)) \<noteq> len then Inr None
        else if loglevel < ANDROID_LOG_WARN \<and> calc_checksum 0 (take 20 pkt) = 0 then Inr None
        else Inr (Some \<lparr>pi_version = 4, pi_protocol = ip_protocol ip, pi_saddr = ip_saddr ip,
                        pi_daddr = ip_daddr ip, pi_off = ip4_off (ip_ihl ip)\<rparr>)))"

definition parse_ip6 :: "bytes \<Rightarrow> nat \<Rightarrow> ip_input option result" where
  "parse_ip6 pkt len =
     (if len < 40 then Inr None
      else rbind (load_ip6_hdr pkt) (\<lambda>ip6.
        rbind (ip6_extensions pkt (ip6_un1_nxt ip6)) (\<lambda>(protocol, off).
          Inr (Some \<lparr>pi_version = 6, pi_protocol = protocol, pi_saddr = ip6_src ip6,
                     pi_daddr = ip6_dst ip6, pi_off = 40 + unat off\<rparr>))))"

definition parse_ip :: "int \<Rightarrow> bytes \<Rightarrow> nat \<Rightarrow> ip_input option result" where
  "parse_ip loglevel pkt len =
     rbind (rd pkt 0) (\<lambda>b0.
       let version = drop_bit 4 b0
       in if version = 4 then parse_ip4 loglevel pkt len
          else if version = 6 then parse_ip6 pkt len
          else Inr None)"

text \<open>\<open>sizeof(struct icmp) = 28\<close>: the BSD struct, with the largest arm of its union.\<close>

definition ip_min_payload :: "byte \<Rightarrow> nat" where
  "ip_min_payload protocol =
     (if protocol = IPPROTO_ICMP \<or> protocol = IPPROTO_ICMPV6 then 28
      else if protocol = IPPROTO_UDP then 8
      else if protocol = IPPROTO_TCP then 20 else 0)"

lemmas protocols = IPPROTO_TCP_def IPPROTO_UDP_def IPPROTO_ICMP_def IPPROTO_ICMPV6_def

text \<open>Source and destination port, and the SYN flag.\<close>

definition ip_ports :: "byte \<Rightarrow> bytes \<Rightarrow> (u16 \<times> u16 \<times> bool) result" where
  "ip_ports protocol payload =
     (if protocol = IPPROTO_ICMP \<or> protocol = IPPROTO_ICMPV6
      then rbind (rd payload 4) (\<lambda>a. rbind (rd payload 5) (\<lambda>b. Inr (ntohs (ld16 a b), ntohs (ld16 a b), False)))
      else if protocol = IPPROTO_UDP
      then rbind (load_udphdr payload) (\<lambda>u. Inr (ntohs (uh_source u), ntohs (uh_dest u), False))
      else if protocol = IPPROTO_TCP
      then rbind (load_tcphdr payload) (\<lambda>t. Inr (ntohs (th_source t), ntohs (th_dest t), th_syn t))
      else Inr (0, 0, False))"

section \<open>The dispatch\<close>

text \<open>A packet that would open a session: what the limit stops, and what the owner is looked up for.\<close>

definition ip_opens :: "arguments \<Rightarrow> bytes \<Rightarrow> ip_input \<Rightarrow> bool \<Rightarrow> session list \<Rightarrow> bool result" where
  "ip_opens args pkt i syn ss =
     (let protocol = pi_protocol i
      in if protocol = IPPROTO_ICMP \<or> protocol = IPPROTO_ICMPV6 then Inr True
         else if protocol = IPPROTO_UDP
         then rbind (has_udp_session args pkt (pi_off i) ss) (\<lambda>has. Inr (\<not> has))
         else Inr (protocol = IPPROTO_TCP \<and> syn))"

definition ip_dispatch ::
  "sys \<Rightarrow> arguments \<Rightarrow> bytes \<Rightarrow> nat \<Rightarrow> ip_input \<Rightarrow> int \<Rightarrow> session list \<Rightarrow> trace \<Rightarrow> (session list \<times> trace) result" where
  "ip_dispatch sys args pkt len i uid ss tr =
     (let protocol = pi_protocol i; off = pi_off i
      in if protocol = IPPROTO_ICMP \<or> protocol = IPPROTO_ICMPV6
         then rbind (handle_icmp sys pkt len off uid ss tr) (\<lambda>(_, ss, tr). Inr (ss, tr))
         else if protocol = IPPROTO_UDP
         then rbind (handle_udp sys pkt len off uid ss tr) (\<lambda>(_, ss, tr). Inr (ss, tr))
         else if protocol = IPPROTO_TCP then handle_tcp sys args pkt len off uid ss tr
         else Inr (ss, tr))"

definition handle_ip ::
  "sys \<Rightarrow> proc \<Rightarrow> int \<Rightarrow> arguments \<Rightarrow> bytes \<Rightarrow> nat \<Rightarrow> int \<Rightarrow> int \<Rightarrow> session list \<Rightarrow> trace
    \<Rightarrow> (session list \<times> trace) result" where
  "handle_ip sys proc loglevel args pkt len sessions maxsessions ss tr =
     rbind (parse_ip loglevel pkt len) (\<lambda>x. case x of None \<Rightarrow> Inr (ss, tr) | Some i \<Rightarrow>
       if size_sub len (pi_off i) < ip_min_payload (pi_protocol i) then Inr (ss, tr)
       else rbind (ip_ports (pi_protocol i) (drop (pi_off i) pkt)) (\<lambda>(sport, dport, syn).
         rbind (ip_opens args pkt i syn ss) (\<lambda>opens.
           if sessions \<ge> maxsessions \<and> opens then Inr (ss, tr)
           else
             let uid = (if opens then get_uid proc (pi_version i) (pi_protocol i) sport (pi_daddr i) dport else -1)
             in ip_dispatch sys args pkt len i uid ss tr)))"

text \<open>\<open>malloc(get_mtu() * 2)\<close> and a read of at most \<open>get_mtu()\<close> bytes into it.\<close>

definition check_tun ::
  "sys \<Rightarrow> proc \<Rightarrow> int \<Rightarrow> arguments \<Rightarrow> u32 \<Rightarrow> int \<Rightarrow> int \<Rightarrow> session list \<Rightarrow> trace
    \<Rightarrow> (int \<times> session list \<times> trace) result" where
  "check_tun sys proc loglevel args evs sessions maxsessions ss tr =
     (if has_event evs EPOLLERR then Inr (-1, ss, tr)
      else if has_event evs EPOLLIN then
        let length = sys_tun_read sys tr MTU; tr = tr @ [ETunRead MTU]
        in case length of
             Inl e \<Rightarrow> Inr (if e = EINTR \<or> e = EAGAIN then 0 else -1, ss, tr)
           | Inr b \<Rightarrow>
               if b = [] then Inr (-1, ss, tr)
               else rbind (handle_ip sys proc loglevel args (recv_buffer sys tr (MTU * 2) b) (List.length b)
                             sessions maxsessions ss tr) (\<lambda>(ss, tr). Inr (0, ss, tr))
      else Inr (0, ss, tr))"

section \<open>The session list\<close>

definition sessions_inv :: "session list \<Rightarrow> bool" where
  "sessions_inv ss \<longleftrightarrow> tcp_sessions_inv ss \<and> udp_sessions_inv ss \<and> icmp_sessions_inv ss"

lemma sessions_inv_Nil [simp]: "sessions_inv []"
  by (simp add: sessions_inv_def tcp_sessions_inv_def udp_sessions_inv_def icmp_sessions_inv_def)

text \<open>A handler that changes sessions of its own protocol only leaves the others' invariant alone.\<close>

lemma tcp_sessions_inv_other:
  assumes "local_change K ss ss'" "\<And>s. K s \<Longrightarrow> \<not> is_TCP s" "tcp_sessions_inv ss"
  shows "tcp_sessions_inv ss'"
proof -
  have nK: "\<not> K (TCP c)" for c using assms(2) [of "TCP c"] by auto
  have "tcp_table.keys ss' = tcp_table.keys ss"
    using assms(1) nK by (intro tcp_table.other_keys [of K]) (auto simp: tcp_key_def split: session.splits)
  moreover note nK
  ultimately show ?thesis
    using assms(3) local_change_other [OF assms(1)] by (auto simp: tcp_sessions_inv_def)
qed

lemma udp_sessions_inv_other:
  assumes "local_change K ss ss'" "\<And>s. K s \<Longrightarrow> \<not> is_UDP s" "udp_sessions_inv ss"
  shows "udp_sessions_inv ss'"
proof -
  have nK: "\<not> K (UDP c)" for c using assms(2) [of "UDP c"] by auto
  have "udp_table.keys ss' = udp_table.keys ss"
    using assms(1) nK by (intro udp_table.other_keys [of K]) (auto simp: udp_key_def split: session.splits)
  moreover note nK
  ultimately show ?thesis
    using assms(3) local_change_other [OF assms(1)] by (auto simp: udp_sessions_inv_def)
qed

lemma icmp_sessions_inv_other:
  assumes "local_change K ss ss'" "\<And>s. K s \<Longrightarrow> \<not> is_ICMP s" "icmp_sessions_inv ss"
  shows "icmp_sessions_inv ss'"
proof -
  have nK: "\<not> K (ICMP c)" for c using assms(2) [of "ICMP c"] by auto
  have "icmp_table.keys ss' = icmp_table.keys ss"
    using assms(1) nK by (intro icmp_table.other_keys [of K]) (auto simp: icmp_key_def split: session.splits)
  moreover note nK
  ultimately show ?thesis
    using assms(3) local_change_other [OF assms(1)] by (auto simp: icmp_sessions_inv_def)
qed

lemma is_session: "is_TCP s \<Longrightarrow> \<not> is_UDP s \<and> \<not> is_ICMP s" "is_UDP s \<Longrightarrow> \<not> is_TCP s \<and> \<not> is_ICMP s"
  "is_ICMP s \<Longrightarrow> \<not> is_TCP s \<and> \<not> is_UDP s"
  by (cases s; simp)+

lemmas other_protocols = tcp_sessions_inv_other udp_sessions_inv_other icmp_sessions_inv_other

lemma handle_tcp_all:
  assumes "sessions_inv ss" "send_closed sys" "handle_tcp sys args pkt len off uid ss tr = Inr (ss', tr')"
  shows "sessions_inv ss'"
  using assms(1) handle_tcp_sessions [OF _ assms(2,3)] other_protocols(2,3) [OF handle_tcp_local [OF assms(3)]] is_session
  unfolding sessions_inv_def by blast

lemma handle_udp_all:
  assumes "sessions_inv ss" "handle_udp sys pkt len off uid ss tr = Inr (r, ss', tr')"
  shows "sessions_inv ss'"
  using assms(1) handle_udp_sessions [OF _ assms(2)] other_protocols(1,3) [OF handle_udp_local [OF assms(2)]] is_session
  unfolding sessions_inv_def by blast

lemma handle_icmp_all:
  assumes "sessions_inv ss" "handle_icmp sys pkt len off uid ss tr = Inr (r, ss', tr')"
  shows "sessions_inv ss'"
  using assms(1) handle_icmp_sessions [OF _ assms(2)] other_protocols(1,2) [OF handle_icmp_local [OF assms(2)]] is_session
  unfolding sessions_inv_def by blast

lemma handle_ip_dispatches:
  assumes "handle_ip sys proc loglevel args pkt len sessions maxsessions ss tr = Inr (ss', tr')"
  shows "ss' = ss \<and> tr' = tr \<or> (\<exists>i sport dport syn opens uid. parse_ip loglevel pkt len = Inr (Some i)
    \<and> ip_ports (pi_protocol i) (drop (pi_off i) pkt) = Inr (sport, dport, syn)
    \<and> ip_opens args pkt i syn ss = Inr opens \<and> \<not> (sessions \<ge> maxsessions \<and> opens)
    \<and> ip_dispatch sys args pkt len i uid ss tr = Inr (ss', tr'))"
proof -
  obtain x where x: "parse_ip loglevel pkt len = Inr x"
    using assms by (auto simp: handle_ip_def rbind_eq_Inr)
  show ?thesis
  proof (cases x)
    case None
    then show ?thesis using assms x by (simp add: handle_ip_def)
  next
    case (Some i)
    show ?thesis
    proof (cases "size_sub len (pi_off i) < ip_min_payload (pi_protocol i)")
      case True
      then show ?thesis using assms x Some by (simp add: handle_ip_def)
    next
      case False
      then obtain sport dport syn where p: "ip_ports (pi_protocol i) (drop (pi_off i) pkt) = Inr (sport, dport, syn)"
        using assms x Some by (auto simp: handle_ip_def rbind_eq_Inr)
      then obtain opens where o: "ip_opens args pkt i syn ss = Inr opens"
        using assms x Some False by (auto simp: handle_ip_def rbind_eq_Inr)
      show ?thesis
        using assms x Some False p o unfolding handle_ip_def Let_def
        by (cases "sessions \<ge> maxsessions \<and> opens") auto
    qed
  qed
qed

lemma ip_dispatch_all:
  assumes "sessions_inv ss" "send_closed sys" "ip_dispatch sys args pkt len i uid ss tr = Inr (ss', tr')"
  shows "sessions_inv ss'"
  using assms handle_tcp_all [OF assms(1,2)] handle_udp_all [OF assms(1)] handle_icmp_all [OF assms(1)]
  unfolding ip_dispatch_def Let_def by (auto simp: rbind_eq_Inr split: if_splits)

lemma handle_ip_all:
  "sessions_inv ss \<Longrightarrow> send_closed sys \<Longrightarrow>
   handle_ip sys proc loglevel args pkt len sessions maxsessions ss tr = Inr (ss', tr') \<Longrightarrow> sessions_inv ss'"
  using handle_ip_dispatches ip_dispatch_all by metis

lemma check_tun_all:
  "sessions_inv ss \<Longrightarrow> send_closed sys \<Longrightarrow>
   check_tun sys proc loglevel args evs sessions maxsessions ss tr = Inr (r, ss', tr') \<Longrightarrow> sessions_inv ss'"
  by (auto simp: check_tun_def Let_def rbind_eq_Inr split: if_splits sum.splits dest: handle_ip_all)

text \<open>
  Whatever is read from the tun device - any bytes, any answer of the system calls - the session
  list keeps its invariant: for each protocol at most one session per flow, and every session in
  order.
\<close>

theorem check_tun_inv:
  assumes "sessions_inv ss" "send_closed sys"
    and "check_tun sys proc loglevel args evs sessions maxsessions ss tr = Inr (r, ss', tr')"
  shows "sessions_inv ss'"
  by (rule check_tun_all [OF assms])

section \<open>The session limit\<close>

lemma has_udp_session_find:
  assumes "has_udp_session args pkt off ss = Inr True" "fwd53 args" "parse_udp pkt len off = Inr p"
  shows "find_idx (udp_matches p) ss \<noteq> None"
proof -
  have "parse_udp pkt (length pkt) off = Inr (p\<lparr>ui_datalen := size_sub (length pkt) (off + 8)\<rparr>)"
    using assms(3) by (auto simp: parse_udp_def Let_def rbind_eq_Inr)
  moreover have "udp_matches (p\<lparr>ui_datalen := n\<rparr>) = udp_matches p" for n
    by (auto simp: fun_eq_iff udp_matches_def split: session.split)
  ultimately show ?thesis
    using assms(1,2) by (auto simp: has_udp_session_def rbind_eq_Inr)
qed

lemma handle_udp_known:
  assumes "handle_udp sys pkt len off uid ss tr = Inr (r, ss', tr')"
    and "has_udp_session args pkt off ss = Inr True" "fwd53 args"
  shows "length ss' = length ss"
  using assms(1)
proof (cases rule: handle_udp_cases)
  case (new p c0 tr0 c)
  then show ?thesis using has_udp_session_find [OF assms(2,3) new(1)] by simp
qed simp_all

lemma handle_tcp_no_syn:
  assumes "handle_tcp sys args pkt len off uid ss tr = Inr (ss', tr')"
    and "load_tcphdr (drop off pkt) = Inr th" "\<not> th_syn th"
  shows "length ss' = length ss"
proof -
  have syn: "\<not> th_syn (ti_hdr p)" if "parse_tcp pkt len off = Inr p" for p
    using that assms(2,3) by (auto simp: parse_tcp_def Let_def rbind_eq_Inr)
  obtain p where p: "parse_tcp pkt len off = Inr p"
    using assms(1) by (auto simp: handle_tcp_def rbind_eq_Inr)
  show ?thesis
    using assms(1) syn [OF p]
    by (auto simp: handle_tcp_def p Let_def rbind_eq_Inr split: if_splits option.splits session.splits)
qed

text \<open>
  C26: At or over the session limit no packet of any kind adds a session, when DNS is forwarded
  (\<open>fwd53\<close>). (When it is not, \<open>has_udp_session\<close> claims a session for every packet to port 53 and the
  limit does not hold for them.)
\<close>

theorem session_limit:
  assumes "handle_ip sys proc loglevel args pkt len sessions maxsessions ss tr = Inr (ss', tr')"
    and "maxsessions \<le> sessions" "fwd53 args"
  shows "length ss' = length ss"
proof -
  have "length ss' = length ss"
    if p: "ip_ports (pi_protocol i) (drop (pi_off i) pkt) = Inr (sport, dport, syn)"
      and o: "ip_opens args pkt i syn ss = Inr False"
      and d: "ip_dispatch sys args pkt len i uid ss tr = Inr (ss', tr')" for i sport dport syn uid
  proof -
    consider (icmp) "pi_protocol i = IPPROTO_ICMP \<or> pi_protocol i = IPPROTO_ICMPV6"
      | (udp) "pi_protocol i = IPPROTO_UDP" | (tcp) "pi_protocol i = IPPROTO_TCP"
      | (other) "pi_protocol i \<notin> {IPPROTO_ICMP, IPPROTO_ICMPV6, IPPROTO_UDP, IPPROTO_TCP}" by blast
    then show ?thesis
    proof cases
      case icmp
      then show ?thesis using o by (auto simp: ip_opens_def)
    next
      case udp
      then show ?thesis using o d handle_udp_known [OF _ _ assms(3)]
        by (auto simp: ip_opens_def ip_dispatch_def Let_def rbind_eq_Inr IPPROTO_UDP_def IPPROTO_ICMP_def IPPROTO_ICMPV6_def)
    next
      case tcp
      then show ?thesis using o d p handle_tcp_no_syn
        by (auto simp: ip_opens_def ip_dispatch_def ip_ports_def Let_def rbind_eq_Inr IPPROTO_UDP_def
            IPPROTO_ICMP_def IPPROTO_ICMPV6_def IPPROTO_TCP_def)
    next
      case other
      then show ?thesis using d by (simp add: ip_dispatch_def)
    qed
  qed
  then show ?thesis using handle_ip_dispatches [OF assms(1)] assms(2) by auto
qed

section \<open>IPv4 packets\<close>

lemma IP_MF_bit: "ld16 a b AND IP_MF \<noteq> 0 \<longleftrightarrow> bit b 5"
proof -
  have m: "IP_MF = push_bit 13 1" by (simp add: IP_MF_def)
  have bm: "bit IP_MF n \<longleftrightarrow> n = 13" for n
    by (simp only: m bit_push_bit_iff) (auto simp: bit_1_iff)
  have "ld16 a b AND IP_MF = 0 \<longleftrightarrow> \<not> bit (ld16 a b) 13"
  proof
    assume "ld16 a b AND IP_MF = 0"
    then have "\<not> bit (ld16 a b AND IP_MF) 13" by simp
    then show "\<not> bit (ld16 a b) 13" by (simp add: bit_and_iff bm)
  next
    assume "\<not> bit (ld16 a b) 13"
    then show "ld16 a b AND IP_MF = 0" by (intro bit_word_eqI) (auto simp: bit_and_iff bm)
  qed
  then show ?thesis by (simp add: ld16_def bit_simps)
qed

lemma ld16_be: "unat (ntohs (ld16 a b)) = be16_at a b"
  by (simp add: ntohs_ld16 unat_ld16 be16_at_def)

lemma rd_head: "20 \<le> length pkt \<Longrightarrow> rd pkt 0 = Inr (pkt ! 0)"
  by (cases pkt) simp_all

lemma parse_ip4_eq:
  assumes "drop_bit 4 (pkt ! 0) = 4" "20 \<le> length pkt"
  shows "parse_ip loglevel pkt len =
    Inr (if 20 \<le> len \<and> \<not> bit (pkt ! 7) 5 \<and> be16_at (pkt ! 2) (pkt ! 3) = len
         then Some \<lparr>pi_version = 4, pi_protocol = pkt ! 9, pi_saddr = take 4 (drop 12 pkt),
           pi_daddr = take 4 (drop 16 pkt),
           pi_off = ip4_off (pkt ! 0 AND 15)\<rparr>
         else None)"
proof -
  have "pkt ! 0 \<in> set (take 20 pkt)" "pkt ! 0 \<noteq> 0"
    using assms by (auto simp: in_set_conv_nth intro!: exI [of _ 0])
  then have "calc_checksum 0 (take 20 pkt) \<noteq> 0"
    using calc_checksum_eq_0 [of "take 20 pkt" 0] assms(2) by auto
  moreover note rd_head [OF assms(2)]
  moreover have "load_iphdr pkt = Inr (decode_iphdr (take 20 pkt))" using assms(2) by (simp add: load_iphdr_def)
  ultimately show ?thesis
    using assms by (simp add: parse_ip_def parse_ip4_def decode_iphdr_def IP_MF_bit ld16_be Let_def
        take_drop min_def)
qed

text \<open>
  C28: Which IPv4 packets get through the header checks: those of at least 20 bytes whose length field
  is the length read. The header checksum never matters, at any log level (\<open>!calc_checksum\<close> is only
  true for an all-zero header); and of the fragment fields only bit 5 of the LAST byte, a bit of the
  fragment offset, is looked at, since \<open>IP_MF\<close> is applied to the field in network order: a first
  fragment with MF set passes.
\<close>

theorem ip4_header_checks:
  assumes "drop_bit 4 (pkt ! 0) = 4" "20 \<le> length pkt"
  shows "(\<exists>i. parse_ip loglevel pkt len = Inr (Some i))
    \<longleftrightarrow> 20 \<le> len \<and> \<not> bit (pkt ! 7) 5 \<and> be16_at (pkt ! 2) (pkt ! 3) = len"
  by (simp add: parse_ip4_eq [OF assms])

text \<open>The first fragment of a datagram (MF set: byte 6 is 20 hex), with a wrong checksum, is taken.\<close>

theorem ip4_header_checks_witness:
  "\<exists>i. parse_ip 3 ([0x45, 0, 0, 28, 0, 0, 0x20, 0, 64, 17, 1, 2, 10, 1, 10, 1, 8, 8, 8, 8] @ replicate 8 0) 28 = Inr (Some i)"
  by (subst ip4_header_checks) (simp_all add: be16_at_def bit_numeral_iff)

lemma unat_nibble: "unat (b AND 15 :: byte) < 16"
  using unat_low_nibble [of b] by simp

lemma ip_off4:
  assumes "5 \<le> unat ihl" "unat ihl < 16"
  shows "ip4_off ihl = 4 * unat ihl"
proof -
  define n where "n = unat ihl - 5"
  have n: "unat ihl = 5 + n" "n < 11" using assms by (simp_all add: n_def)
  have "(int (5 + n) - 5) * 4 = int (n * 4)" by simp
  then have "(word_of_int ((int (5 + n) - 5) * 4) :: byte) = of_nat (n * 4)" by (simp only: of_int_of_nat_eq)
  then have "unat (word_of_int ((int (unat ihl) - 5) * 4) :: byte) = n * 4"
    using n(2) by (simp only: n(1) unsigned_of_nat) (simp add: take_bit_nat_eq_self)
  then show ?thesis unfolding ip4_off_def using n(1) by (simp only:) simp
qed



theorem session_limit_witness:
  "\<exists>ss tr. handle_ip calm_sys sample_proc 3 (sample_args\<lparr>fwd53 := True\<rparr>)
      ([0x45, 0, 0, 48, 0, 0, 0, 0, 64, 1, 0, 0, 10, 1, 10, 1, 8, 8, 8, 8] @ [8] @ replicate 27 0) 48 10 10
      [UDP sample_udp] [] = Inr (ss, tr) \<and> length ss = 1"
proof -
  let ?args = "sample_args\<lparr>fwd53 := True\<rparr>"
  let ?pkt = "[0x45, 0, 0, 48, 0, 0, 0, 0, 64, 1, 0, 0, 10, 1, 10, 1, 8, 8, 8, 8] @ [8] @ replicate 27 0 :: bytes"
  let ?i = "\<lparr>pi_version = 4, pi_protocol = 1, pi_saddr = [10, 1, 10, 1], pi_daddr = [8, 8, 8, 8], pi_off = 20\<rparr>"
  have "parse_ip 3 ?pkt 48 = Inr (Some ?i)"
    by (subst parse_ip4_eq) (simp_all add: be16_at_def ip4_off_def)
  then have "handle_ip calm_sys sample_proc 3 ?args ?pkt 48 10 10 [UDP sample_udp] [] = Inr ([UDP sample_udp], [])"
    by (simp add: handle_ip_def ip_min_payload_def ip_ports_def ip_opens_def protocols rd_def Let_def)
  then show ?thesis using session_limit [of calm_sys sample_proc 3 ?args ?pkt 48 10 10 "[UDP sample_udp]" "[]"] by auto
qed

theorem check_tun_inv_witness:
  "\<exists>r ss tr. check_tun calm_sys sample_proc 3 sample_args EPOLLIN 0 10 [UDP sample_udp] [] = Inr (r, ss, tr) \<and> sessions_inv ss"
proof -
  have "check_tun calm_sys sample_proc 3 sample_args EPOLLIN 0 10 [UDP sample_udp] [] = Inr (0, [UDP sample_udp], [ETunRead MTU])"
    by (simp add: check_tun_def has_event_def EPOLLIN_def EPOLLERR_def)
  moreover have "sessions_inv [UDP sample_udp]"
    using sample_udp_sessions_inv
    by (simp add: sessions_inv_def tcp_sessions_inv_def icmp_sessions_inv_def tcp_key_def icmp_key_def)
  moreover have "send_closed calm_sys" by (simp add: send_closed_def)
  ultimately show ?thesis using check_tun_inv by blast
qed

section \<open>IPv6 extension headers\<close>

lemma lower_not_upper: "is_lower_layer p \<Longrightarrow> \<not> is_upper_layer p"
  by (auto simp: is_lower_layer_def is_upper_layer_def protocols)

lemma ext_walk_lower:
  assumes "ext_walk pkt protocol off = Some r" "\<not> is_upper_layer protocol" "r = Inr (p, o')"
  shows "\<not> is_upper_layer p"
proof -
  have "\<not> is_upper_layer protocol \<longrightarrow> r = Inr (p, o') \<longrightarrow> \<not> is_upper_layer p"
    by (rule ext_walk.raw_induct [of "\<lambda>pkt protocol off r. \<not> is_upper_layer protocol \<longrightarrow> r = Inr (p, o') \<longrightarrow>
        \<not> is_upper_layer p", OF _ assms(1)])
      (auto split: sum.splits if_splits, metis lower_not_upper)
  with assms(2,3) show ?thesis by simp
qed

text \<open>
  The walk over IPv6 extension headers never arrives anywhere: it only steps onto lower-layer
  headers, so its result is always discarded, and whatever follows an extension header the packet is
  taken to have the protocol of that header and no offset.
\<close>

theorem ip6_extensions_never_skipped:
  assumes "ip6_extensions pkt nxt = Inr (protocol, off)"
  shows "protocol = nxt \<and> off = 0"
proof (cases "is_upper_layer nxt")
  case True
  then show ?thesis using assms by (simp add: ip6_extensions_def)
next
  case False
  then obtain p o' where w: "returned (ext_walk pkt nxt 40) = Inr (p, o')"
    using assms by (auto simp: ip6_extensions_def rbind_eq_Inr)
  then have "ext_walk pkt nxt 40 = Some (Inr (p, o'))"
    by (cases "ext_walk pkt nxt 40") (auto simp: returned_def)
  from ext_walk_lower [OF this False refl] show ?thesis
    using assms False w by (simp add: ip6_extensions_def)
qed

theorem ip6_extensions_never_skipped_witness:
  "ip6_extensions ([0x60, 0, 0, 0, 0, 16, 0, 64] @ replicate 32 0 @ [17, 0] @ replicate 14 0) 0 = Inr (0, 0)"
proof -
  let ?pkt = "[0x60, 0, 0, 0, 0, 16, 0, 64] @ replicate 32 0 @ [17, 0] @ replicate 14 0 :: bytes"
  have "rd ?pkt 40 = Inr 17" by (simp add: rd_def nth_append)
  then have "ext_walk ?pkt 0 40 = Some (Inr (0, 40))"
    by (subst ext_walk.simps) (simp add: is_lower_layer_def)
  then have "\<exists>r. ip6_extensions ?pkt 0 = Inr r"
    by (simp add: ip6_extensions_def is_upper_layer_def protocols)
  then show ?thesis using ip6_extensions_never_skipped by fastforce
qed

text \<open>A chain of zero bytes is a chain of hop-by-hop headers; the walk follows it out of the block.\<close>

lemma ext_walk_zeros:
  assumes "\<forall>i. unat off \<le> i \<longrightarrow> i < length pkt \<longrightarrow> pkt ! i = 0" "length pkt < 65000" "\<not> is_upper_layer protocol"
  shows "ext_walk pkt protocol off = Some (Inl OobRead)"
  using assms(1,3)
proof (induction "length pkt - unat off" arbitrary: off protocol rule: less_induct)
  case less
  show ?case
  proof (cases "unat off + 1 < length pkt")
    case True
    have "unat (off + 8) = unat off + 8"
      using True assms(2) by (simp add: unat_word_ariths)
    then have "ext_walk pkt 0 (off + 8) = Some (Inl OobRead)"
      using less True by (intro less.hyps) (auto simp: is_upper_layer_def protocols)
    then show ?thesis
      using True less.prems by (subst ext_walk.simps) (simp add: is_lower_layer_def)
  next
    case False
    then show ?thesis
      using less.prems by (subst ext_walk.simps) (auto simp: rd_def is_lower_layer_def)
  qed
qed

lemma zero_extensions_overread:
  assumes "drop_bit 4 (pkt ! 0) = 6" "pkt ! 6 = 0" "40 \<le> len" "40 \<le> length pkt" "length pkt < 65000"
    and "\<forall>i. 40 \<le> i \<longrightarrow> i < length pkt \<longrightarrow> pkt ! i = 0"
  shows "parse_ip loglevel pkt len = Inl OobRead"
proof -
  have "ext_walk pkt 0 40 = Some (Inl OobRead)"
    using assms by (intro ext_walk_zeros) (auto simp: is_upper_layer_def protocols)
  moreover have "rd pkt 0 = Inr (pkt ! 0)" using assms(4) by (intro rd_head) simp
  moreover have "(take 40 pkt) ! 6 = 0" using assms(2,4) by simp
  ultimately show ?thesis
    using assms(1,3,4) by (simp add: parse_ip_def parse_ip6_def load_ip6_hdr_def decode_ip6_hdr_def
        ip6_extensions_def is_upper_layer_def protocols Let_def)
qed

end
