(* ===== verification/Effects.thy ===== *)
theory Effects
  imports Tcp Ip "HOL-Library.Multiset"
begin

text \<open>
  What the operations do outside: the descriptors they register and close and the packets they write
  to the client. Every operation on a session closes at most the session's own descriptor and then
  forgets it, and every packet it writes is well formed (\<open>acts\<close>); only the three handlers that open a
  session register a descriptor. Summed up over the session list (\<open>balance\<close>): what is registered is
  either still held by one session, or was closed, once.
\<close>

section \<open>Packets written\<close>

definition writes_ok :: "trace \<Rightarrow> trace \<Rightarrow> bool" where
  "writes_ok tr tr' \<longleftrightarrow> (\<exists>evs. tr' = tr @ evs \<and> (\<forall>b. ETunWrite b \<in> set evs \<longrightarrow> packet_ok b))"

lemma writes_ok_append [simp]: "writes_ok tr (tr @ evs) \<longleftrightarrow> (\<forall>b. ETunWrite b \<in> set evs \<longrightarrow> packet_ok b)"
  by (simp add: writes_ok_def)

lemma writes_ok_refl [simp, intro]: "writes_ok tr tr"
  by (simp add: writes_ok_def)

lemma writes_ok_trans [trans]: "writes_ok a b \<Longrightarrow> writes_ok b c \<Longrightarrow> writes_ok a c"
  by (auto simp: writes_ok_def)

text \<open>\<open>plain\<close>: no descriptor registered or closed; \<open>acts\<close>: with the session's descriptor.\<close>

definition plain :: "trace \<Rightarrow> trace \<Rightarrow> bool" where
  "plain tr tr' \<longleftrightarrow> silent tr tr' \<and> writes_ok tr tr'"

lemma plain_append [simp]:
  "plain tr (tr @ evs) \<longleftrightarrow> closes evs = [] \<and> opens evs = [] \<and> (\<forall>b. ETunWrite b \<in> set evs \<longrightarrow> packet_ok b)"
  by (auto simp: plain_def)

lemma plain_refl [simp, intro]: "plain tr tr"
  by (simp add: plain_def)

lemma plain_trans [trans]: "plain a b \<Longrightarrow> plain b c \<Longrightarrow> plain a c"
  by (auto simp: plain_def intro: silent_trans writes_ok_trans)

lemma plain_from: "plain (tr @ evs) tr' \<Longrightarrow> plain tr (tr @ evs) \<Longrightarrow> plain tr tr'"
  by (rule plain_trans)

lemma plain_upto: "plain tr tr' \<Longrightarrow> plain tr' (tr' @ evs) \<Longrightarrow> plain tr (tr' @ evs)"
  by (rule plain_trans)

definition acts :: "int \<Rightarrow> trace \<Rightarrow> int \<Rightarrow> trace \<Rightarrow> bool" where
  "acts fd tr fd' tr' \<longleftrightarrow> fd_step fd tr fd' tr' \<and> writes_ok tr tr'"

lemma acts_plain: "plain tr tr' \<Longrightarrow> acts fd tr fd tr'"
  by (simp add: acts_def plain_def fd_step_silent)

lemma acts_refl [simp, intro]: "acts fd tr fd tr"
  by (simp add: acts_def)

lemma acts_trans [trans]: "acts a tr b tr1 \<Longrightarrow> acts b tr1 c tr2 \<Longrightarrow> acts a tr c tr2"
  by (auto simp: acts_def intro: fd_step_trans writes_ok_trans)

lemma acts_close: "0 \<le> fd \<Longrightarrow> closes evs = [fd] \<Longrightarrow> opens evs = [] \<Longrightarrow>
    \<forall>b. ETunWrite b \<in> set evs \<longrightarrow> packet_ok b \<Longrightarrow> acts fd tr (- 1) (tr @ evs)"
  by (auto simp: acts_def fd_step_def)

text \<open>The packets of the three writers.\<close>

lemma tcp_packet_ok [simp]:
  assumes "tcp_addrs_ok cur"
  shows "packet_ok (tcp_packet cur data syn ack fin rst)"
proof -
  let ?seg = "store_tcphdr (tcp_filled cur data syn ack fin rst) @ tcp_options cur syn @ data"
  have p: "tcp_packet cur data syn ack fin rst
      = fst (ip_part (t_version cur) (t_saddr cur) (t_daddr cur) 6 (length ?seg)) @ ?seg"
    by (simp add: tcp_packet_eq tcp_ip_part_def IPPROTO_TCP_def add.assoc)
  show ?thesis
    unfolding p
  proof (rule ip_part_packet_ok)
    assume "length ?seg \<le> 65000"
    then show "receiver_accepts (t_version cur) 6 (fst (ip_part (t_version cur) (t_saddr cur) (t_daddr cur) 6 (length ?seg)) @ ?seg)"
      unfolding p [symmetric] using assms by (intro tcp_packet_accepts) simp_all
  qed (use assms in \<open>simp_all add: tcp_addrs_ok_def\<close>)
qed

lemma udp_packet_ok [simp]:
  assumes "udp_addrs_ok cur"
  shows "packet_ok (udp_packet cur data)"
  unfolding udp_packet_eq IPPROTO_UDP_def
proof (rule ip_part_packet_ok)
  let ?seg = "store_udphdr (udp_filled cur data) @ data"
  assume "length ?seg \<le> 65000"
  then show "receiver_accepts (u_version cur) 17 (fst (ip_part (u_version cur) (u_saddr cur) (u_daddr cur) 17 (length ?seg)) @ ?seg)"
    using udp_packet_accepts [OF assms, of data] unfolding udp_packet_eq IPPROTO_UDP_def by simp
qed (use assms in \<open>simp_all add: udp_addrs_ok_def\<close>)

lemma icmp_packet_ok [simp]:
  assumes "icmp_inv cur"
  shows "packet_ok (icmp_packet cur data)"
proof -
  let ?proto = "if i_version cur = 4 then IPPROTO_ICMP else IPPROTO_ICMPV6"
  have p: "icmp_packet cur data = fst (ip_part (i_version cur) (i_saddr cur) (i_daddr cur) ?proto (length data)) @ data"
    by (simp add: icmp_packet_def ip_part_def Let_def)
  show ?thesis
    unfolding p using assms
    by (intro ip_part_packet_ok) (auto simp: icmp_inv_def IPPROTO_ICMP_def IPPROTO_ICMPV6_def split: if_splits)
qed

section \<open>TCP sessions\<close>

lemma tcp_addrs_ok_frame [simp]:
  "tcp_addrs_ok (s\<lparr>t_remote_seq := a\<rparr>) = tcp_addrs_ok s" "tcp_addrs_ok (s\<lparr>t_local_seq := a\<rparr>) = tcp_addrs_ok s"
  "tcp_addrs_ok (s\<lparr>t_time := t\<rparr>) = tcp_addrs_ok s" "tcp_addrs_ok (s\<lparr>t_last_keep_alive := t\<rparr>) = tcp_addrs_ok s"
  "tcp_addrs_ok (s\<lparr>t_sent := w\<rparr>) = tcp_addrs_ok s" "tcp_addrs_ok (s\<lparr>t_received := w\<rparr>) = tcp_addrs_ok s"
  "tcp_addrs_ok (s\<lparr>events := e\<rparr>) = tcp_addrs_ok s" "tcp_addrs_ok (s\<lparr>t_acked := a\<rparr>) = tcp_addrs_ok s"
  "tcp_addrs_ok (s\<lparr>t_recv_window := a\<rparr>) = tcp_addrs_ok s" "tcp_addrs_ok (s\<lparr>t_send_window := a\<rparr>) = tcp_addrs_ok s"
  "tcp_addrs_ok (s\<lparr>t_hostname := h\<rparr>) = tcp_addrs_ok s" "tcp_addrs_ok (s\<lparr>t_connect_sent := c\<rparr>) = tcp_addrs_ok s"
  "tcp_addrs_ok (s\<lparr>t_state := st\<rparr>) = tcp_addrs_ok s" "tcp_addrs_ok (s\<lparr>socket := fd\<rparr>) = tcp_addrs_ok s"
  "tcp_addrs_ok (s\<lparr>t_forward := f\<rparr>) = tcp_addrs_ok s"
  by (simp_all add: tcp_addrs_ok_def)

lemma tcp_inv_addrs [simp]: "tcp_inv s \<Longrightarrow> tcp_addrs_ok s"
  by (simp add: tcp_inv_def)

definition keeps_fd :: "tcp_session \<Rightarrow> trace \<Rightarrow> tcp_session \<Rightarrow> trace \<Rightarrow> bool" where
  "keeps_fd s tr s' tr' \<longleftrightarrow>
     socket s' = socket s \<and> (tcp_addrs_ok s \<longrightarrow> tcp_addrs_ok s' \<and> plain tr tr')"

lemma keeps_fd_refl [simp, intro]: "keeps_fd s tr s tr"
  by (simp add: keeps_fd_def)

lemma keeps_fd_trans [trans]: "keeps_fd a tr b tr1 \<Longrightarrow> keeps_fd b tr1 c tr2 \<Longrightarrow> keeps_fd a tr c tr2"
  by (auto simp: keeps_fd_def intro: plain_trans)

lemma keeps_fd_step: "keeps_fd s tr s' tr' \<Longrightarrow> tcp_addrs_ok s \<Longrightarrow> acts (socket s) tr (socket s') tr'"
  by (simp add: keeps_fd_def acts_plain)

lemma write_rst_fd: "write_rst sys s tr = (s', tr') \<Longrightarrow> keeps_fd s tr s' tr'"
  by (auto simp: write_rst_eq Let_def keeps_fd_def)

lemma get_receive_buffer_fd: "get_receive_buffer sys fd tr = (n, tr') \<Longrightarrow> plain tr tr'"
  by (auto simp: get_receive_buffer_def Let_def split: if_splits)

lemma get_receive_window_fd: "get_receive_window sys s tr = (n, tr') \<Longrightarrow> plain tr tr'"
  by (auto simp: get_receive_window_def Let_def split: prod.splits dest: get_receive_buffer_fd)

subsection \<open>Events\<close>

lemma drain_fd:
  assumes "drain sys fd tr = Some tr'"
  shows "plain tr tr'"
  by (rule drain.raw_induct [of "\<lambda>sys fd tr tr'. plain tr tr'", OF _ assms])
    (fastforce split: sum.splits if_splits dest: plain_from)

lemma tcp_connect_reply_fd: "tcp_connect_reply sys s tr = Inr (s', tr') \<Longrightarrow> keeps_fd s tr s' tr'"
  by (auto simp: tcp_connect_reply_def Let_def keeps_fd_def write_rst_eq
      split: sum.splits if_splits option.splits dest!: drain_fd intro: plain_from)

lemma tcp_connected_fd: "tcp_connected sys s tr = (s', tr') \<Longrightarrow> keeps_fd s tr s' tr'"
  by (auto simp: tcp_connected_def syn_ack.w_eq Let_def keeps_fd_def split: if_splits)

lemma forward_send_fd: "forward_send sys s tr = Inr (n, e, tr') \<Longrightarrow> plain tr tr'"
  by (auto simp: forward_send_def Let_def rbind_eq_Inr case_prod_beta)

lemma forward_advance_fd: "forward_advance s n = (f, s') \<Longrightarrow> socket s' = socket s \<and> tcp_addrs_ok s' = tcp_addrs_ok s"
  by (auto simp: forward_advance_def Let_def split: if_splits)

lemma forward_loop_fd:
  assumes "forward_loop sys cur b fwd tr = Inr (fwd', cur', tr')"
  shows "keeps_fd cur tr cur' tr'"
  using assms
proof (induction sys cur b fwd tr arbitrary: fwd' cur' tr' rule: forward_loop.induct)
  case (1 sys cur b fwd tr)
  show ?case
  proof (cases "head_ready cur b")
    case False
    then show ?thesis using "1.prems" by (auto simp: forward_loop.simps [of sys cur])
  next
    case True
    then obtain sent errno tr1 where s: "forward_send sys cur tr = Inr (sent, errno, tr1)"
      using "1.prems"(1) by (auto simp: forward_loop.simps [of sys cur] rbind_eq_Inr)
    obtain f cur1 where adv: "forward_advance cur sent = (f, cur1)" by fastforce
    have k: "keeps_fd cur tr cur1 tr1" "keeps_fd cur tr cur tr1"
      using forward_send_fd [OF s] forward_advance_fd [OF adv] by (simp_all add: keeps_fd_def)
    have IH: "f \<Longrightarrow> \<not> sent < 0 \<Longrightarrow>
        forward_loop sys cur1 (b - word_of_int sent) True tr1 = Inr (fwd', cur', tr') \<Longrightarrow> ?thesis"
      by (rule keeps_fd_trans [OF k(1) "1.IH" [OF True s refl refl _ adv [symmetric]]]) simp_all
    have "cur' = cur \<and> tr' = tr1 \<or> write_rst sys cur tr1 = (cur', tr') \<or> cur' = cur1 \<and> tr' = tr1 \<or>
        f \<and> \<not> sent < 0 \<and> forward_loop sys cur1 (b - word_of_int sent) True tr1 = Inr (fwd', cur', tr')"
      using "1.prems" True s adv by (auto simp: forward_loop.simps [of sys cur] split: if_splits prod.splits)
    then show ?thesis
      using k IH keeps_fd_trans [OF k(2) write_rst_fd [of sys cur tr1 cur' tr']] by blast
  qed
qed

lemma tcp_forward_fd: "tcp_forward sys evs s tr = Inr (fwd, s', tr') \<Longrightarrow> keeps_fd s tr s' tr'"
  by (auto simp: tcp_forward_def keeps_fd_def split: if_splits prod.splits
      dest!: forward_loop_fd get_receive_buffer_fd intro: plain_trans)

lemma tcp_window_ack_fd: "tcp_window_ack sys fwd s tr = (s', tr') \<Longrightarrow> keeps_fd s tr s' tr'"
  by (auto simp: tcp_window_ack_eq keeps_fd_def Let_def split: if_splits prod.splits
      dest!: get_receive_window_fd intro: plain_upto)

text \<open>The one step of an event that closes: the end of the remote's data.\<close>

lemma tcp_remote_eof_fd:
  assumes "tcp_remote_eof sys s tr = (s', tr')" "0 \<le> socket s" "tcp_addrs_ok s"
  shows "acts (socket s) tr (socket s') tr'"
proof -
  have "\<exists>b. tr' = tr @ [ETunWrite b, EClose (socket s)] \<and> socket s' = -1 \<and> packet_ok b"
    using assms(1,3) by (auto simp: tcp_remote_eof_eq Let_def write_rst_eq split: if_splits)
  then show ?thesis using assms(2) by (auto intro!: acts_close)
qed

lemma tcp_receive_fd:
  assumes "tcp_receive sys evs s tr = (s', tr')" "0 \<le> socket s" "tcp_addrs_ok s"
  shows "acts (socket s) tr (socket s') tr'"
proof (cases "has_event evs EPOLLIN \<and> get_send_window s > 0")
  case False
  then show ?thesis using assms by (auto simp: tcp_receive_def Let_def)
next
  case True
  let ?n = "unat (if get_send_window s > ucast (t_mss s) then ucast (t_mss s) else get_send_window s)"
  let ?s = "s\<lparr>t_time := sys_time sys tr\<rparr>"
  let ?tr = "tr @ [ETime] @ [ERecv (socket s) ?n]"
  have k: "keeps_fd s tr ?s ?tr" by (simp add: keeps_fd_def)
  have "keeps_fd ?s ?tr s' tr' \<or> tcp_remote_eof sys ?s ?tr = (s', tr')"
  proof (cases "sys_recv sys (tr @ [ETime]) (socket s) ?n")
    case (Inl e)
    then have "write_rst sys ?s ?tr = (s', tr') \<or> s' = ?s \<and> tr' = ?tr"
      using assms(1) True by (auto simp: tcp_receive_def Let_def split: if_splits)
    then show ?thesis using write_rst_fd by blast
  next
    case (Inr buffer)
    then show ?thesis
      using assms(1) True
      by (cases "buffer = []") (auto simp: tcp_receive_def Let_def data.w_eq keeps_fd_def plain_def silent_def writes_ok_def split: if_splits)
  qed
  moreover have "0 \<le> socket ?s" "tcp_addrs_ok ?s" using assms(2,3) by simp_all
  ultimately have "acts (socket ?s) ?tr (socket s') tr'"
    using tcp_remote_eof_fd [of sys ?s ?tr s' tr'] keeps_fd_step [of ?s ?tr s' tr'] by blast
  with keeps_fd_step [OF k assms(3)] show ?thesis by (rule acts_trans)
qed

lemma tcp_data_event_fd:
  assumes "tcp_data_event sys evs s tr = Inr (s', tr')" "0 \<le> socket s" "tcp_addrs_ok s"
  shows "acts (socket s) tr (socket s') tr'"
proof -
  obtain fwd s1 tr1 where 1: "tcp_forward sys evs s tr = Inr (fwd, s1, tr1)"
    using assms(1) by (auto simp: tcp_data_event_def rbind_eq_Inr)
  obtain s2 tr2 where 2: "tcp_window_ack sys fwd s1 tr1 = (s2, tr2)" by fastforce
  have 3: "(if t_state s2 = TCP_ESTABLISHED \<or> t_state s2 = TCP_CLOSE_WAIT
             then tcp_receive sys evs s2 tr2 else (s2, tr2)) = (s', tr')"
    using assms(1) by (simp add: tcp_data_event_def 1 2)
  have k: "keeps_fd s tr s2 tr2"
    using tcp_forward_fd [OF 1] tcp_window_ack_fd [OF 2] by (rule keeps_fd_trans)
  then have "acts (socket s2) tr2 (socket s') tr'"
    using 3 assms(2,3) tcp_receive_fd [of sys evs s2 tr2 s' tr'] by (auto simp: keeps_fd_def split: if_splits)
  with keeps_fd_step [OF k assms(3)] show ?thesis by (rule acts_trans)
qed

lemma check_tcp_socket_fd:
  assumes "check_tcp_socket sys evs s tr = Inr (s', tr')" "0 \<le> socket s" "tcp_addrs_ok s"
  shows "acts (socket s) tr (socket s') tr'"
proof -
  let ?s = "s\<lparr>t_time := sys_time sys tr\<rparr>"
  have "keeps_fd s tr ?s (tr @ [ETime])" by (simp add: keeps_fd_def)
  then have "write_rst sys ?s (tr @ [ETime]) = (s', tr') \<Longrightarrow> keeps_fd s tr s' tr'"
    using write_rst_fd keeps_fd_trans by blast
  then show ?thesis
    using assms tcp_connect_reply_fd [of sys s tr s' tr'] tcp_connected_fd [of sys s tr s' tr']
      tcp_data_event_fd [of sys evs s tr s' tr']
      keeps_fd_step [of s tr s' tr']
    by (auto simp: check_tcp_socket_def split: if_splits)
qed

subsection \<open>Packets\<close>

lemma tcp_proxy_connect_fd:
  assumes "tcp_proxy_connect sys hostname s tr = Inr (s', tr')"
  shows "keeps_fd s tr s' tr'"
proof -
  define host where "host = (if hostname \<noteq> [] then hostname else lookup_hostname (ip4 (t_daddr s)) 512)"
  define s1 where "s1 = (if host \<noteq> [] then s\<lparr>t_hostname := host\<rparr> else s)"
  let ?tr = "tr @ [ESend (socket s1) (connect_request (t_hostname s1)) False]"
  have k: "keeps_fd s tr s1 tr" "keeps_fd s tr s1 ?tr" by (simp_all add: keeps_fd_def s1_def)
  have "s' = s1 \<and> tr' = tr \<or> write_rst sys s1 ?tr = (s', tr') \<or>
      s' = s1\<lparr>t_connect_sent := TCP_CONNECT_SENT, t_state := TCP_LISTEN\<rparr> \<and> tr' = ?tr"
    using assms(1) unfolding tcp_proxy_connect_def Let_def host_def [symmetric] s1_def [symmetric]
    by (auto split: if_splits prod.splits)
  then show ?thesis
    using k keeps_fd_trans [OF k(2) write_rst_fd [of sys s1 ?tr s' tr']] by (auto simp: keeps_fd_def)
qed

lemma queue_tcp_fd: "queue_tcp seq psh s data n = Inr s' \<Longrightarrow> socket s' = socket s \<and> tcp_addrs_ok s' = tcp_addrs_ok s"
  by (auto simp: queue_tcp_def rbind_eq_Inr split: if_splits)

lemma tcp_fin_fd: "tcp_fin sys s tr = (s', tr') \<Longrightarrow> keeps_fd s tr s' tr'"
  by (auto simp: tcp_fin_def ack.w_eq Let_def keeps_fd_def split: if_splits)

lemma tcp_flags_fd: "tcp_flags sys p s tr = (s', tr') \<Longrightarrow> keeps_fd s tr s' tr'"
  by (auto simp: tcp_flags_def Let_def tcp_ack_def tcp_other_ack_def split: if_splits
      dest: tcp_fin_fd write_rst_fd) (simp_all add: keeps_fd_def)

lemma tcp_segment_fd:
  assumes "tcp_segment sys p s tr = Inr (s', tr')"
  shows "keeps_fd s tr s' tr'"
proof -
  let ?c = "s\<lparr>t_time := sys_time sys tr, t_send_window :=
      push_bit (unat (t_send_scale s)) (ucast (ntohs (th_window (ti_hdr p))))\<rparr>"
  let ?tr = "tr @ [ETime]"
  have "write_rst sys ?c ?tr = (s', tr') \<or> tcp_flags sys p ?c ?tr = (s', tr') \<or>
      (\<exists>c2. queue_tcp (ti_seq p) (th_psh (ti_hdr p)) ?c (ti_data p) (ti_datalen p) = Inr c2 \<and>
        tcp_flags sys p c2 ?tr = (s', tr'))"
    using assms(1) by (auto simp: tcp_segment_def Let_def rbind_eq_Inr split: if_splits)
  moreover have "socket ?c = socket s \<and> tcp_addrs_ok ?c = tcp_addrs_ok s" by simp
  ultimately obtain c where c: "socket c = socket s \<and> tcp_addrs_ok c = tcp_addrs_ok s" and k: "keeps_fd c ?tr s' tr'"
    using write_rst_fd tcp_flags_fd queue_tcp_fd by metis
  have "keeps_fd s tr c ?tr" using c by (simp add: keeps_fd_def)
  then show ?thesis using k by (rule keeps_fd_trans)
qed

lemma tcp_found_fd:
  assumes "tcp_found sys p hostname s tr = Inr (s', tr')"
  shows "keeps_fd s tr s' tr'"
proof -
  let ?https = "htons (th_dest (ti_hdr p)) = 443"
  obtain c1 tr1 where c1: "(if ?https then tcp_proxy_connect sys hostname s tr else Inr (s, tr)) = Inr (c1, tr1)"
    and rest: "(if ?https \<and> t_connect_sent c1 \<noteq> TCP_CONNECT_ESTABLISHED
         then rbind (queue_tcp (ti_seq p) (th_psh (ti_hdr p)) c1 (ti_data p) (ti_datalen p)) (\<lambda>c. Inr (c, tr1))
         else if t_state c1 = TCP_CLOSING \<or> t_state c1 = TCP_CLOSE then Inr (write_rst sys c1 tr1)
         else tcp_segment sys p c1 tr1) = Inr (s', tr')"
    using assms(1) unfolding tcp_found_def Let_def rbind_eq_Inr by auto
  have "keeps_fd s tr c1 tr1"
    using c1 tcp_proxy_connect_fd by (auto split: if_splits)
  also have "keeps_fd c1 tr1 s' tr'"
    using rest write_rst_fd tcp_segment_fd queue_tcp_fd
    by (auto simp: rbind_eq_Inr keeps_fd_def split: if_splits)
  finally show ?thesis .
qed

lemma open_tcp_socket_fd: "open_tcp_socket sys args s tr = (fd, tr') \<Longrightarrow> plain tr tr'"
  by (auto simp: open_tcp_socket_def Let_def split: prod.splits if_splits)

lemma tcp_reject_fd: "parse_tcp pkt len off = Inr p \<Longrightarrow> plain tr (tcp_reject sys p tr)"
  using tcp_reject_eq [of p sys tr] parse_tcp_addrs [of pkt len off p] by fastforce

lemma tcp_syn_fd:
  assumes "tcp_syn sys args p uid ss tr = Inr (ss', tr')"
  shows "ss' = ss \<and> plain tr tr' \<or> (\<exists>c evs. ss' = TCP c # ss \<and> 0 \<le> socket c \<and> tr' = tr @ evs
    \<and> closes evs = [] \<and> opens evs = [socket c] \<and> writes_ok tr tr')"
proof -
  obtain mw fwd where o': "tcp_options_in (ti_options p) (ti_optlen p) (get_default_mss (ti_version p)) = Inr mw"
    and f: "SYN_data p = Inr fwd"
    using assms(1) by (auto simp: tcp_syn_def rbind_eq_Inr)
  obtain s tr1 where s: "tcp_new_session sys p uid mw fwd tr = (s, tr1)" by fastforce
  obtain sock tr2 where op: "open_tcp_socket sys args s tr1 = (sock, tr2)" by fastforce
  obtain w tr3 where w: "get_receive_window sys (s\<lparr>socket := sock\<rparr>) tr2 = (w, tr3)" by fastforce
  have "plain tr tr1" using s by (auto simp: tcp_new_session_def Let_def case_prod_beta)
  then have "plain tr tr2" "plain tr tr3"
    using open_tcp_socket_fd [OF op] get_receive_window_fd [OF w] by (blast intro: plain_trans)+
  moreover have "ss' = ss \<and> tr' = tr2 \<or> 0 \<le> sock \<and> tr' = tr3 @ [EEpollAdd sock (EPOLLOUT OR EPOLLERR)] \<and>
      ss' = TCP (s\<lparr>socket := sock, t_recv_window := w, events := EPOLLOUT OR EPOLLERR\<rparr>) # ss"
    using assms(1) by (auto simp: tcp_syn_def o' f s op w Let_def split: if_splits)
  ultimately show ?thesis by (auto simp: plain_def silent_def)
qed

lemma handle_tcp_fd:
  assumes "handle_tcp sys args pkt len off uid ss tr = Inr (ss', tr')"
  shows "ss' = ss \<and> plain tr tr'
    \<or> (\<exists>c evs. ss' = TCP c # ss \<and> 0 \<le> socket c \<and> tr' = tr @ evs \<and> closes evs = [] \<and> opens evs = [socket c]
      \<and> writes_ok tr tr')
    \<or> (\<exists>i c c'. i < length ss \<and> ss ! i = TCP c \<and> ss' = ss[i := TCP c'] \<and> keeps_fd c tr c' tr')"
proof -
  obtain p hostname where p: "parse_tcp pkt len off = Inr p"
    and r: "(if length (proxyIp args) + 1 > RADDR_SIZE then Inl OobWrite
          else if th_urg (ti_hdr p) then Inr (ss, tr)
          else case find_idx (tcp_matches p) ss of
            None \<Rightarrow> if th_syn (ti_hdr p) then tcp_syn sys args p uid ss tr
                    else Inr (ss, tcp_reject sys p tr)
          | Some i \<Rightarrow>
              (case ss ! i of
                 TCP cur \<Rightarrow> rbind (tcp_found sys p hostname cur tr)
                              (\<lambda>(cur, tr). Inr (ss[i := TCP cur], tr))
               | _ \<Rightarrow> Inr (ss, tr))) = Inr (ss', tr')"
    using assms unfolding handle_tcp_def Let_def rbind_eq_Inr by blast
  show ?thesis
  proof (cases "find_idx (tcp_matches p) ss")
    case None
    then show ?thesis
      using r tcp_syn_fd [of sys args p uid ss tr ss' tr'] tcp_reject_fd [OF p] by (auto split: if_splits)
  next
    case (Some i)
    then have "i < length ss" by (simp add: find_idx_Some)
    moreover have "ss' = ss \<and> tr' = tr \<or>
        (\<exists>c c'. ss ! i = TCP c \<and> ss' = ss[i := TCP c'] \<and> tcp_found sys p hostname c tr = Inr (c', tr'))"
      using r Some by (auto simp: rbind_eq_Inr split: if_splits session.splits)
    ultimately show ?thesis using tcp_found_fd by blast
  qed
qed

subsection \<open>The event loop's own work\<close>

lemma monitor_data_fd:
  assumes "monitor_data sys s evs tr = (r, evs', s', tr')" "tcp_addrs_ok s"
  shows "plain tr tr'"
proof -
  define m where "m = (if get_send_window s > 0 then (False, evs OR EPOLLIN, s, tr)
     else
       let ms = sys_ms sys tr; tr = tr @ [EClock]
       in if ms - t_last_keep_alive s > EPOLL_MIN_CHECK
          then let s = s\<lparr>t_last_keep_alive := ms, t_remote_seq := t_remote_seq s - 1\<rparr>;
                   (_, s, tr) = write_ack sys s tr
               in (True, evs, s\<lparr>t_remote_seq := t_remote_seq s + 1\<rparr>, tr)
          else (True, evs, s, tr))"
  obtain r1 evs1 s1 tr1 where m1: "m = (r1, evs1, s1, tr1)" by (rule prod_cases4)
  have "plain tr tr1"
    using m1 assms(2) by (auto simp: m_def ack.w_eq Let_def split: if_splits)
  moreover have "tr' = tr1 \<or> (\<exists>n. get_receive_buffer sys (socket s1) tr1 = (n, tr'))"
    using assms(1) unfolding monitor_data_def m_def [symmetric] m1
    by (cases "get_receive_buffer sys (socket s1) tr1") (auto split: if_splits)
  ultimately show ?thesis using get_receive_buffer_fd plain_trans by blast
qed

lemma monitor_commit_fd: "monitor_commit sys (r, evs, s, tr) = (r', s', tr') \<Longrightarrow> plain tr tr'"
  by (auto simp: monitor_commit_def Let_def split: if_splits)

lemma monitor_tcp_session_fd:
  assumes "monitor_tcp_session sys s tr = (r, s', tr')" "tcp_addrs_ok s"
  shows "plain tr tr'"
proof -
  obtain r1 evs1 s1 tr1 where m: "monitor_data sys s EPOLLERR tr = (r1, evs1, s1, tr1)"
    by (rule prod_cases4)
  have "\<exists>r2 evs2 s2 tr2. (tr2 = tr \<or> tr2 = tr1) \<and> monitor_commit sys (r2, evs2, s2, tr2) = (r, s', tr')"
    using assms(1) m by (auto simp: monitor_tcp_session_eq split: if_splits)
  then show ?thesis using monitor_data_fd [OF m assms(2)] plain_trans monitor_commit_fd by metis
qed

lemma check_tcp_session_fd:
  assumes "check_tcp_session sys s n m tr = (r, s', tr')" "tcp_addrs_ok s"
  shows "acts (socket s) tr (socket s') tr'"
proof -
  obtain s1 tr1 s2 where t: "tcp_timed_out sys s n m tr = (s1, tr1)"
    and c: "tcp_closed sys s1 tr1 = (s2, tr')" and s': "s' = tcp_reset_counters s2"
    using assms(1) by (auto simp: check_tcp_session_eq Let_def split: prod.splits)
  have "keeps_fd s tr s1 tr1"
    using t write_rst_fd [of sys s "tr @ [ETime]" s1 tr1]
    by (auto simp: tcp_timed_out_def keeps_fd_def split: if_splits dest: plain_from)
  then have "acts (socket s) tr (socket s1) tr1" using assms(2) by (rule keeps_fd_step)
  also have "acts (socket s1) tr1 (socket s2) tr'"
    using c by (auto simp: tcp_closed_def intro!: acts_close acts_plain split: if_splits)
  finally show ?thesis by (simp add: s')
qed

section \<open>UDP and ICMP sessions\<close>

lemma check_udp_session_acts:
  assumes "check_udp_session sys s n m tr = (d, s', tr')" "udp_inv s"
  shows "acts (socket s) tr (socket s') tr'"
proof -
  have "writes_ok tr tr'"
    using assms(1) by (auto simp: check_udp_session_eq udp_closed_def Let_def split: if_splits)
  then show ?thesis using check_udp_session_keeps [OF assms(2,1)] by (simp add: acts_def udp_keeps_def)
qed

lemma check_udp_socket_writes:
  assumes "check_udp_socket sys evs s tr = Inr (s', tr')" "udp_inv s"
  shows "socket s' = socket s \<and> writes_ok tr tr'"
proof (cases "\<not> has_event evs EPOLLERR \<and> has_event evs EPOLLIN \<and>
    (\<exists>b. b \<noteq> [] \<and> sys_recv sys (tr @ [ETime]) (socket s) (unat (u_mss s)) = Inr b)")
  case True
  then obtain b where b: "\<not> has_event evs EPOLLERR" "has_event evs EPOLLIN" "b \<noteq> []"
    "sys_recv sys (tr @ [ETime]) (socket s) (unat (u_mss s)) = Inr b" by blast
  obtain res tr2 where w: "write_udp sys (s\<lparr>u_time := sys_time sys tr, u_received := u_received s + of_nat (length b)\<rparr>) b
      (tr @ [ETime, ERecv (socket s) (unat (u_mss s))]) = (res, tr2)" by fastforce
  show ?thesis
    using assms unfolding check_udp_socket_read [OF b refl refl w] rbind_eq_Inr
    by (auto simp: udp_inv_def udp_addrs_ok_def split: if_splits)
next
  case False
  then show ?thesis
    using assms(1) by (cases "sys_recv sys (tr @ [ETime]) (socket s) (unat (u_mss s))")
      (auto simp: check_udp_socket_def Let_def split: if_splits)
qed

lemma udp_forward_acts:
  assumes "udp_forward sys p s tr = Inr (r, s', tr')" "udp_inv s" "u_state s = UDP_ACTIVE"
  shows "acts (socket s) tr (socket s') tr'"
proof -
  have "s' = s \<and> tr' = tr \<or> udp_send sys p s tr = Inr (r, s', tr')"
    using assms(1) by (auto simp: udp_forward_def rbind_eq_Inr split: if_splits dest!: check_dhcp_returns)
  then have "writes_ok tr tr'"
  proof
    assume "udp_send sys p s tr = Inr (r, s', tr')"
    then show ?thesis by (cases rule: udp_send_cases) simp
  qed simp
  then show ?thesis using udp_forward_keeps [OF assms(2,3,1)] by (simp add: acts_def udp_keeps_def)
qed

lemma check_icmp_socket_plain:
  assumes "check_icmp_socket sys evs s tr = Inr (s', tr')" "icmp_inv s"
  shows "plain tr tr'"
proof -
  let ?n = "icmp_maxmsg (i_version s)"
  have "writes_ok tr tr'"
  proof (cases "\<not> has_event evs EPOLLERR \<and> has_event evs EPOLLIN \<and>
      (\<exists>b. b \<noteq> [] \<and> sys_recv sys (tr @ [ETime]) (socket s) ?n = Inr b)")
    case True
    then obtain b where b: "\<not> has_event evs EPOLLERR" "has_event evs EPOLLIN" "b \<noteq> []"
      "sys_recv sys (tr @ [ETime]) (socket s) ?n = Inr b" by blast
    have "icmp_inv (s\<lparr>i_time := t\<rparr>)" for t using assms(2) by (simp add: icmp_inv_def)
    then show ?thesis
      using assms(1) unfolding check_icmp_socket_read [OF b refl refl refl] rbind_eq_Inr by auto
  next
    case False
    then show ?thesis
      using assms(1) by (cases "sys_recv sys (tr @ [ETime]) (socket s) ?n")
        (auto simp: check_icmp_socket_def Let_def split: if_splits)
  qed
  then show ?thesis using check_icmp_socket_keeps [OF assms(2,1)] by (simp add: plain_def icmp_keeps_def)
qed

lemma icmp_forward_plain:
  assumes "icmp_forward sys p s tr = Inr (r, s', tr')" "icmp_inv s"
  shows "plain tr tr'"
proof -
  obtain m d where m: "icmp_rewrite (NOT (ii_id p)) (ii_csum p) (ii_icmp p) (ii_icmplen p) = Inr m"
    "rd_bytes m 0 (ii_icmplen p mod 2 ^ 32) = Inr d"
    using assms(1) by (auto simp: icmp_forward_def Let_def rbind_eq_Inr)
  obtain res e where e: "sys_sendto sys (tr @ [ETime]) (socket s) d
      (if ii_version p = 4 then Addr4 (ii_daddr p) 0 else Addr6 (ii_daddr p) 0) = (res, e)" by fastforce
  show ?thesis
    using assms(1) unfolding icmp_forward_eq [OF m refl e refl] by (auto split: if_splits)
qed

section \<open>The balance of a session list\<close>

definition session_fd :: "session \<Rightarrow> int" where
  "session_fd s = (case s of ICMP c \<Rightarrow> socket c | UDP c \<Rightarrow> socket c | TCP c \<Rightarrow> socket c)"

lemma session_fd_simps [simp]:
  "session_fd (ICMP i) = socket i" "session_fd (UDP u) = socket u" "session_fd (TCP t) = socket t"
  by (simp_all add: session_fd_def)

text \<open>The descriptors the sessions hold.\<close>

definition held :: "session list \<Rightarrow> int multiset" where
  "held ss = mset (filter (\<lambda>fd. 0 \<le> fd) (map session_fd ss))"

lemma held_simps [simp]:
  "held [] = {#}" "held (s # ss) = (if 0 \<le> session_fd s then add_mset (session_fd s) (held ss) else held ss)"
  by (simp_all add: held_def)

definition balance :: "session list \<times> trace \<Rightarrow> session list \<times> trace \<Rightarrow> bool" where
  "balance c c' \<longleftrightarrow> (\<exists>evs. snd c' = snd c @ evs \<and>
     held (fst c) + mset (opens evs) = held (fst c') + mset (closes evs) \<and>
     (\<forall>b. ETunWrite b \<in> set evs \<longrightarrow> packet_ok b))"

lemma balance_refl [simp, intro]: "balance c c"
  by (simp add: balance_def)

lemma balance_trans [trans]: "balance a b \<Longrightarrow> balance b c \<Longrightarrow> balance a c"
proof -
  assume "balance a b" "balance b c"
  then obtain e1 e2 where e: "snd b = snd a @ e1" "held (fst a) + mset (opens e1) = held (fst b) + mset (closes e1)"
    "snd c = snd b @ e2" "held (fst b) + mset (opens e2) = held (fst c) + mset (closes e2)"
    and w: "\<forall>b. ETunWrite b \<in> set (e1 @ e2) \<longrightarrow> packet_ok b"
    by (fastforce simp: balance_def)
  have "held (fst a) + mset (opens (e1 @ e2)) = held (fst c) + mset (closes (e1 @ e2))"
    using e by (simp, metis add.assoc add.commute)
  then show ?thesis using e w by (auto simp: balance_def intro!: exI [of _ "e1 @ e2"])
qed

lemma balance_plain: "plain tr tr' \<Longrightarrow> balance (ss, tr) (ss, tr')"
  by (auto simp: balance_def plain_def silent_def)

lemma balance_new:
  "0 \<le> session_fd s \<Longrightarrow> closes evs = [] \<Longrightarrow> opens evs = [session_fd s] \<Longrightarrow> writes_ok tr (tr @ evs) \<Longrightarrow>
   balance (ss, tr) (s # ss, tr @ evs)"
  by (simp add: balance_def)

text \<open>A step of one session, then of the rest; a session that is dropped has no descriptor.\<close>

lemma balance_Cons:
  assumes "acts (session_fd s) tr (session_fd s') tr1" "balance (ss, tr1) (ss', tr2)"
  shows "balance (s # ss, tr) (s' # ss', tr2)"
proof -
  obtain e1 e2 where "tr1 = tr @ e1" "opens e1 = []"
    "session_fd s' = session_fd s \<and> closes e1 = [] \<or> 0 \<le> session_fd s \<and> session_fd s' = -1 \<and> closes e1 = [session_fd s]"
    "tr2 = tr1 @ e2" "held ss + mset (opens e2) = held ss' + mset (closes e2)"
    "\<forall>b. ETunWrite b \<in> set (e1 @ e2) \<longrightarrow> packet_ok b"
    using assms by (fastforce simp: balance_def acts_def fd_step_def)
  then show ?thesis by (auto simp: balance_def intro!: exI [of _ "e1 @ e2"])
qed

lemma balance_drop:
  assumes "balance (s # ss, tr) (s' # ss', tr')" "session_fd s' < 0"
  shows "balance (s # ss, tr) (ss', tr')"
  using assms by (simp add: balance_def)

lemma balance_update:
  assumes "i < length ss" "acts (session_fd (ss ! i)) tr (session_fd s') tr'"
  shows "balance (ss, tr) (ss[i := s'], tr')"
  using assms
proof (induction ss arbitrary: i)
  case (Cons s ss)
  show ?case
  proof (cases i)
    case 0
    then show ?thesis using Cons.prems balance_Cons [of s tr s' tr' ss ss tr'] by simp
  next
    case (Suc j)
    then have "balance (ss, tr) (ss[j := s'], tr')" using Cons by simp
    then show ?thesis using balance_Cons [of s tr s tr] Suc by simp
  qed
qed simp

text \<open>The handlers of a packet.\<close>

lemma handle_tcp_balance:
  assumes "tcp_sessions_inv ss" "handle_tcp sys args pkt len off uid ss tr = Inr (ss', tr')"
  shows "balance (ss, tr) (ss', tr')"
  using handle_tcp_fd [OF assms(2)]
proof (elim disjE exE conjE)
  fix c evs assume "ss' = TCP c # ss" "0 \<le> socket c" "tr' = tr @ evs" "closes evs = []" "opens evs = [socket c]"
    "writes_ok tr tr'"
  then show ?thesis by (auto intro: balance_new)
next
  fix i c c' assume u: "i < length ss" "ss ! i = TCP c" "ss' = ss[i := TCP c']" "keeps_fd c tr c' tr'"
  then have "tcp_inv c" using assms(1) unfolding tcp_sessions_inv_def by (metis nth_mem)
  then show ?thesis
    using balance_update [OF u(1), of tr "TCP c'" tr'] keeps_fd_step [OF u(4)] u(2,3) by simp
qed (simp add: balance_plain)

lemma balance_mute: "mute tr tr' \<Longrightarrow> balance (ss, tr) (ss, tr')"
  by (auto simp: balance_def mute_def)

lemma handle_udp_balance:
  assumes "udp_sessions_inv ss" "handle_udp sys pkt len off uid ss tr = Inr (r, ss', tr')"
  shows "balance (ss, tr) (ss', tr')"
  using assms(2)
proof (cases rule: handle_udp_cases)
  case same
  then show ?thesis by (simp add: balance_mute)
next
  case (new p c0 tr0 c evs)
  then have "acts (socket c0) tr0 (socket c) tr'" by (intro udp_forward_acts)
  then have "balance (UDP c0 # ss, tr0) (UDP c # ss, tr')"
    using balance_Cons [of "UDP c0" tr0 "UDP c" tr' ss ss tr'] by simp
  moreover have "balance (ss, tr) (UDP c0 # ss, tr0)"
    using new by (auto simp: udp_inv_def intro!: balance_new)
  ultimately show ?thesis using new(7) balance_trans by blast
next
  case (found p i c c')
  then have i: "i < length ss" by (simp add: find_idx_Some)
  then have "udp_inv c" using assms(1) found(3) unfolding udp_sessions_inv_def by (metis nth_mem)
  then have "acts (socket c) tr (socket c') tr'" using found(4,5) by (intro udp_forward_acts)
  then show ?thesis using balance_update [OF i, of tr "UDP c'" tr'] found(3,6) by simp
qed

lemma handle_icmp_balance:
  assumes "icmp_sessions_inv ss" "handle_icmp sys pkt len off uid ss tr = Inr (r, ss', tr')"
  shows "balance (ss, tr) (ss', tr')"
  using assms(2)
proof (cases rule: handle_icmp_cases)
  case same
  then show ?thesis by (simp add: balance_mute)
next
  case (new p c0 tr0 c evs)
  then have "socket c = socket c0" "plain tr0 tr'"
    using icmp_forward_keeps [OF new(3,5)] icmp_forward_plain [OF new(5,3)] by (simp_all add: icmp_keeps_def)
  then have "balance (ICMP c0 # ss, tr0) (ICMP c # ss, tr')"
    using balance_Cons [of "ICMP c0" tr0 "ICMP c" tr' ss ss tr'] by (simp add: acts_plain)
  moreover have "balance (ss, tr) (ICMP c0 # ss, tr0)"
    using new by (auto simp: icmp_inv_def intro!: balance_new)
  ultimately show ?thesis using new(6) balance_trans by blast
next
  case (found p i c c')
  then have i: "i < length ss" by (simp add: find_idx_Some)
  then have "icmp_inv c" using assms(1) found(3) unfolding icmp_sessions_inv_def by (metis nth_mem)
  then have "acts (socket c) tr (socket c') tr'"
    using icmp_forward_keeps [OF _ found(4)] icmp_forward_plain [OF found(4)] by (simp add: icmp_keeps_def acts_plain)
  then show ?thesis using balance_update [OF i, of tr "ICMP c'" tr'] found(3,5) by simp
qed

lemma handle_ip_balance:
  assumes "sessions_inv ss" "handle_ip sys proc loglevel args pkt len sessions maxsessions ss tr = Inr (ss', tr')"
  shows "balance (ss, tr) (ss', tr')"
proof -
  have "balance (ss, tr) (ss', tr')" if "ip_dispatch sys args pkt len i uid ss tr = Inr (ss', tr')" for i uid
    using that assms(1) handle_tcp_balance handle_udp_balance handle_icmp_balance
    unfolding ip_dispatch_def Let_def sessions_inv_def by (fastforce simp: rbind_eq_Inr split: if_splits)
  then show ?thesis using handle_ip_dispatches [OF assms(2)] by auto
qed

lemma check_tun_balance:
  assumes "sessions_inv ss" "check_tun sys proc loglevel args evs sessions maxsessions ss tr = Inr (r, ss', tr')"
  shows "balance (ss, tr) (ss', tr')"
proof -
  have "mute tr tr' \<and> ss' = ss \<or>
      (\<exists>pkt len. handle_ip sys proc loglevel args pkt len sessions maxsessions ss (tr @ [ETunRead MTU]) = Inr (ss', tr'))"
    using assms(2) by (auto simp: check_tun_def Let_def rbind_eq_Inr split: if_splits sum.splits)
  moreover have "balance (ss, tr) (ss, tr @ [ETunRead MTU])" by (simp add: balance_mute)
  ultimately show ?thesis using handle_ip_balance [OF assms(1)] balance_mute balance_trans by blast
qed

end
