(* ===== verification/Session.thy ===== *)
theory Session
  imports Effects
begin

text \<open>
  The event loop (\<open>session.c\<close>): \<open>init\<close> and \<open>clear\<close>, the count of the running sessions with the choice
  of their events, the periodic check that removes sessions, the dispatch of an epoll event and
  \<open>check_allowed\<close>. The list \<open>ng_session\<close> is the state.
\<close>

section \<open>Sessions of any protocol\<close>

definition session_active :: "session \<Rightarrow> bool" where
  "session_active s = (case s of
      ICMP c \<Rightarrow> \<not> i_stop c
    | UDP c \<Rightarrow> u_state c = UDP_ACTIVE
    | TCP c \<Rightarrow> t_state c \<noteq> TCP_CLOSING \<and> t_state c \<noteq> TCP_CLOSE)"

definition session_deadline :: "session \<Rightarrow> int \<Rightarrow> int \<Rightarrow> int" where
  "session_deadline s sessions maxsessions = (case s of
      ICMP c \<Rightarrow> i_time c + get_icmp_timeout c sessions maxsessions
    | UDP c \<Rightarrow> u_time c + get_udp_timeout c sessions maxsessions
    | TCP c \<Rightarrow> t_time c + get_tcp_timeout c sessions maxsessions)"

definition init :: "session list" where
  "init = []"

fun clear :: "session list \<Rightarrow> trace \<Rightarrow> session list \<times> trace" where
  "clear [] tr = ([], tr)"
| "clear (s # ss) tr = clear ss (if session_fd s \<ge> 0 then tr @ [EClose (session_fd s)] else tr)"

text \<open>\<open>SESSION_LIMIT\<close> percent of the descriptors, at most 1000.\<close>

definition max_sessions :: "int \<Rightarrow> int" where
  "max_sessions rlim_cur = min 1000 (rlim_cur * 40 div 100)"

section \<open>One turn of the loop\<close>

definition count_sessions :: "session list \<Rightarrow> int" where
  "count_sessions ss = int (length (filter session_active ss))"

text \<open>The first pass: \<open>monitor_tcp_session\<close> on each TCP session with a socket.\<close>

fun monitor_pass :: "sys \<Rightarrow> session list \<Rightarrow> trace \<Rightarrow> bool \<times> session list \<times> trace" where
  "monitor_pass sys [] tr = (False, [], tr)"
| "monitor_pass sys (s # ss) tr =
     (let (r, s, tr) = (case s of
            TCP c \<Rightarrow> if socket c \<ge> 0
                     then let (r, c, tr) = monitor_tcp_session sys c tr in (r, TCP c, tr)
                     else (False, s, tr)
          | _ \<Rightarrow> (False, s, tr));
          (r', ss, tr) = monitor_pass sys ss tr
      in (r \<or> r', s # ss, tr))"

definition check_session :: "sys \<Rightarrow> session \<Rightarrow> int \<Rightarrow> int \<Rightarrow> trace \<Rightarrow> int \<times> session \<times> trace" where
  "check_session sys s sessions maxsessions tr = (case s of
      ICMP c \<Rightarrow> let (del, c, tr) = check_icmp_session sys c sessions maxsessions tr in (del, ICMP c, tr)
    | UDP c \<Rightarrow> let (del, c, tr) = check_udp_session sys c sessions maxsessions tr in (del, UDP c, tr)
    | TCP c \<Rightarrow> let (del, c, tr) = check_tcp_session sys c sessions maxsessions tr in (del, TCP c, tr))"

text \<open>The second pass, with the time to sleep: \<open>timeout\<close> shrinks to the next deadline.\<close>

fun check_pass ::
  "sys \<Rightarrow> int \<Rightarrow> int \<Rightarrow> int \<Rightarrow> int \<Rightarrow> session list \<Rightarrow> trace \<Rightarrow> int \<times> session list \<times> trace" where
  "check_pass sys sessions maxsessions now timeout [] tr = (timeout, [], tr)"
| "check_pass sys sessions maxsessions now timeout (s # ss) tr =
     (let (del, s, tr) = check_session sys s sessions maxsessions tr;
          stimeout = session_deadline s sessions maxsessions - now + 1;
          timeout = (if session_active s \<and> del = 0 \<and> stimeout > 0 \<and> stimeout < timeout then stimeout else timeout);
          (timeout, ss, tr) = check_pass sys sessions maxsessions now timeout ss tr
      in (timeout, if del \<noteq> 0 then ss else s # ss, tr))"

definition EPOLL_TIMEOUT :: int where "EPOLL_TIMEOUT = 3600"

text \<open>
  A turn up to \<open>epoll_wait\<close>: the argument for the wait in milliseconds and the time of the last check
  come out.
\<close>

definition loop_turn ::
  "sys \<Rightarrow> int \<Rightarrow> int \<Rightarrow> session list \<Rightarrow> trace \<Rightarrow> int \<times> int \<times> session list \<times> trace" where
  "loop_turn sys maxsessions last_check ss tr =
     (let sessions = count_sessions ss;
          (recheck, ss, tr) = monitor_pass sys ss tr;
          ms = sys_ms sys tr; tr = tr @ [EClock]
      in if ms - last_check > EPOLL_MIN_CHECK
         then let now = sys_time sys tr; tr = tr @ [ETime];
                  (timeout, ss, tr) = check_pass sys sessions maxsessions now EPOLL_TIMEOUT ss tr
              in (if recheck then EPOLL_MIN_CHECK else timeout * 1000, ms, ss, tr)
         else (EPOLL_MIN_CHECK, last_check, ss, tr))"

section \<open>The dispatch of an event\<close>

text \<open>\<open>while (!error && is_readable(args->tun)) if (check_tun(...) < 0) error = 1;\<close>\<close>

partial_function (option) tun_loop ::
  "sys \<Rightarrow> proc \<Rightarrow> int \<Rightarrow> arguments \<Rightarrow> int \<Rightarrow> u32 \<Rightarrow> int \<Rightarrow> int \<Rightarrow> session list \<Rightarrow> trace
    \<Rightarrow> (bool \<times> session list \<times> trace) result option" where
  "tun_loop sys proc loglevel args tun evs sessions maxsessions ss tr =
     (if sys_readable sys tr tun then
        case check_tun sys proc loglevel args evs sessions maxsessions ss (tr @ [EReadable tun]) of
          Inl e \<Rightarrow> Some (Inl e)
        | Inr (r, ss, tr) \<Rightarrow>
            if r < 0 then Some (Inr (True, ss, tr))
            else tun_loop sys proc loglevel args tun evs sessions maxsessions ss tr
      else Some (Inr (False, ss, tr @ [EReadable tun])))"

text \<open>\<open>while (!(events & EPOLLERR) && (events & EPOLLIN) && is_readable(socket)) check_udp_socket(...);\<close>\<close>

partial_function (option) udp_loop :: "sys \<Rightarrow> u32 \<Rightarrow> udp_session \<Rightarrow> trace \<Rightarrow> (udp_session \<times> trace) result option" where
  "udp_loop sys evs s tr =
     (if \<not> has_event evs EPOLLERR \<and> has_event evs EPOLLIN then
        if sys_readable sys tr (socket s) then
          case check_udp_socket sys evs s (tr @ [EReadable (socket s)]) of
            Inl e \<Rightarrow> Some (Inl e)
          | Inr (s', tr) \<Rightarrow> udp_loop sys evs s' tr
        else Some (Inr (s, tr @ [EReadable (socket s)]))
      else Some (Inr (s, tr)))"

definition session_event :: "sys \<Rightarrow> u32 \<Rightarrow> session \<Rightarrow> trace \<Rightarrow> (session \<times> trace) result" where
  "session_event sys evs s tr = (case s of
      ICMP c \<Rightarrow> rbind (check_icmp_socket sys evs c tr) (\<lambda>(c, tr). Inr (ICMP c, tr))
    | UDP c \<Rightarrow> rbind (returned (udp_loop sys evs c tr)) (\<lambda>(c, tr). Inr (UDP c, tr))
    | TCP c \<Rightarrow> rbind (check_tcp_socket sys evs c tr) (\<lambda>(c, tr). Inr (TCP c, tr)))"

text \<open>
  \<open>for (i = 0; i < ready; i++)\<close>: the events of one wait, in order; false ends the loop. A session is
  found by the descriptor it registered.
\<close>

fun dispatch ::
  "sys \<Rightarrow> proc \<Rightarrow> int \<Rightarrow> arguments \<Rightarrow> int \<Rightarrow> int \<Rightarrow> int \<Rightarrow> (wakeup \<times> u32) list \<Rightarrow> session list \<Rightarrow> trace
    \<Rightarrow> (bool \<times> session list \<times> trace) result" where
  "dispatch sys proc loglevel args tun sessions maxsessions [] ss tr = Inr (True, ss, tr)"
| "dispatch sys proc loglevel args tun sessions maxsessions ((w, evs) # ws) ss tr =
     (case w of
        WPipe \<Rightarrow> Inr (False, ss, tr @ [EPipeRead])
      | WTun \<Rightarrow> rbind (returned (tun_loop sys proc loglevel args tun evs sessions maxsessions ss tr)) (\<lambda>(error, ss, tr).
          if error then Inr (False, ss, tr)
          else dispatch sys proc loglevel args tun sessions maxsessions ws ss tr)
      | WSession fd \<Rightarrow>
          (case find_idx (\<lambda>s. session_fd s = fd) ss of
             None \<Rightarrow> dispatch sys proc loglevel args tun sessions maxsessions ws ss tr
           | Some i \<Rightarrow> rbind (session_event sys evs (ss ! i) tr) (\<lambda>(s, tr).
               dispatch sys proc loglevel args tun sessions maxsessions ws (ss[i := s]) tr)))"

text \<open>One iteration of \<open>while (!stopping)\<close>, on the time of the last check and the sessions.\<close>

definition event_turn ::
  "sys \<Rightarrow> proc \<Rightarrow> int \<Rightarrow> arguments \<Rightarrow> int \<Rightarrow> int \<Rightarrow> int \<times> session list \<times> trace
    \<Rightarrow> (bool \<times> int \<times> session list \<times> trace) result" where
  "event_turn sys proc loglevel args tun maxsessions c =
     (let (last_check, ss, tr) = c;
          sessions = count_sessions ss;
          (timeout, last_check, ss, tr) = loop_turn sys maxsessions last_check ss tr;
          ready = sys_epoll_wait sys tr timeout; tr = tr @ [EWait timeout]
      in case ready of
           Inl e \<Rightarrow> Inr (e = EINTR, last_check, ss, tr)
         | Inr ws \<Rightarrow> rbind (dispatch sys proc loglevel args tun sessions maxsessions ws ss tr)
             (\<lambda>(run, ss, tr). Inr (run, last_check, ss, tr)))"

partial_function (option) events_loop ::
  "sys \<Rightarrow> proc \<Rightarrow> int \<Rightarrow> arguments \<Rightarrow> int \<Rightarrow> int \<Rightarrow> int \<times> session list \<times> trace
    \<Rightarrow> (int \<times> session list \<times> trace) result option" where
  "events_loop sys proc loglevel args tun maxsessions c =
     (case event_turn sys proc loglevel args tun maxsessions c of
        Inl e \<Rightarrow> Some (Inl e)
      | Inr (run, c') \<Rightarrow> if run then events_loop sys proc loglevel args tun maxsessions c' else Some (Inr c'))"

section \<open>Stopping all sessions\<close>

text \<open>What \<open>check_allowed\<close> does to a session: \<open>None\<close> is its removal.\<close>

definition terminate_session :: "sys \<Rightarrow> session \<Rightarrow> trace \<Rightarrow> session option \<times> trace" where
  "terminate_session sys s tr = (case s of
      ICMP c \<Rightarrow> (Some (ICMP (c\<lparr>i_stop := True\<rparr>)), tr)
    | UDP c \<Rightarrow> (if u_state c = UDP_ACTIVE then (Some (UDP (c\<lparr>u_state := UDP_FINISHING\<rparr>)), tr)
                else if u_state c = UDP_BLOCKED then (None, tr) else (Some s, tr))
    | TCP c \<Rightarrow> (if t_state c \<noteq> TCP_CLOSING \<and> t_state c \<noteq> TCP_CLOSE
                then let (c, tr) = write_rst sys c tr in (Some (TCP c), tr) else (Some s, tr)))"

fun check_allowed :: "sys \<Rightarrow> session list \<Rightarrow> trace \<Rightarrow> session list \<times> trace" where
  "check_allowed sys [] tr = ([], tr)"
| "check_allowed sys (s # ss) tr =
     (let (s, tr) = terminate_session sys s tr; (ss, tr) = check_allowed sys ss tr
      in (case s of None \<Rightarrow> ss | Some s \<Rightarrow> s # ss, tr))"

section \<open>The thread\<close>

text \<open>\<open>opened\<close>: \<open>epoll_create\<close> and both \<open>epoll_ctl\<close> calls succeeded, else the loop is not entered.\<close>

definition handle_events ::
  "sys \<Rightarrow> proc \<Rightarrow> int \<Rightarrow> arguments \<Rightarrow> int \<Rightarrow> int \<Rightarrow> bool \<Rightarrow> session list \<Rightarrow> trace \<Rightarrow> (session list \<times> trace) result" where
  "handle_events sys proc loglevel args tun rlim_cur opened ss tr =
     (let (ss, tr) = check_allowed sys ss tr
      in if opened
         then rbind (returned (events_loop sys proc loglevel args tun (max_sessions rlim_cur) (0, ss, tr)))
                (\<lambda>(_, ss, tr). Inr (ss, tr))
         else Inr (ss, tr))"

end
