(* ===== verification/Event_Loop.thy ===== *)
theory Event_Loop
  imports Session
begin

text \<open>
  What holds along the event loop: one lemma per operation of \<open>Session\<close> on a session (\<open>evolves\<close> with
  \<open>acts\<close>), lifted to the passes over the list and to whole iterations (\<open>steps\<close>), and from there the
  invariant of the list, the account of the descriptors, and the sleeping time.
\<close>

section \<open>A session in the loop\<close>

definition session_ok :: "session \<Rightarrow> bool" where
  "session_ok s = (case s of ICMP c \<Rightarrow> icmp_inv c | UDP c \<Rightarrow> udp_inv c | TCP c \<Rightarrow> tcp_inv c)"

lemma session_ok_simps [simp]:
  "session_ok (ICMP i) = icmp_inv i" "session_ok (UDP u) = udp_inv u" "session_ok (TCP t) = tcp_inv t"
  by (simp_all add: session_ok_def)

lemma sessions_inv_alt:
  "sessions_inv ss \<longleftrightarrow> (\<forall>s \<in> set ss. session_ok s) \<and> distinct (tcp_table.keys ss)
     \<and> distinct (udp_table.keys ss) \<and> distinct (icmp_table.keys ss)"
proof -
  have "(\<forall>s \<in> set ss. session_ok s) \<longleftrightarrow> (\<forall>c. TCP c \<in> set ss \<longrightarrow> tcp_inv c)
      \<and> (\<forall>c. UDP c \<in> set ss \<longrightarrow> udp_inv c) \<and> (\<forall>c. ICMP c \<in> set ss \<longrightarrow> icmp_inv c)"
  proof (intro iffI ballI)
    fix s assume a: "(\<forall>c. TCP c \<in> set ss \<longrightarrow> tcp_inv c) \<and> (\<forall>c. UDP c \<in> set ss \<longrightarrow> udp_inv c)
      \<and> (\<forall>c. ICMP c \<in> set ss \<longrightarrow> icmp_inv c)" "s \<in> set ss"
    then show "session_ok s" by (cases s) auto
  qed force
  then show ?thesis
    unfolding sessions_inv_def tcp_sessions_inv_def udp_sessions_inv_def icmp_sessions_inv_def by blast
qed

text \<open>\<open>evolves s' s\<close>: \<open>s'\<close> is what became of \<open>s\<close>; an ICMP session may leave the table.\<close>

definition evolves :: "session \<Rightarrow> session \<Rightarrow> bool" where
  "evolves s' s \<longleftrightarrow> session_ok s' \<and> tcp_key s' = tcp_key s \<and> udp_key s' = udp_key s
     \<and> (icmp_key s' = icmp_key s \<or> icmp_key s' = None)"

lemma evolves_refl: "session_ok s \<Longrightarrow> evolves s s"
  by (simp add: evolves_def)

lemma evolves_tcp: "tcp_keeps h c c' \<Longrightarrow> evolves (TCP c') (TCP c)"
  by (simp add: evolves_def tcp_keeps_def tcp_key_def udp_key_def icmp_key_def)

lemma evolves_udp: "udp_keeps (c, tr) (c', tr') \<Longrightarrow> evolves (UDP c') (UDP c)"
  by (simp add: evolves_def udp_keeps_def tcp_key_def udp_key_def icmp_key_def)

lemma evolves_icmp: "icmp_keeps (c, tr) (c', tr') \<Longrightarrow> evolves (ICMP c') (ICMP c)"
  by (auto simp: evolves_def icmp_keeps_def tcp_key_def udp_key_def icmp_key_def)

section \<open>Steps of the list\<close>

text \<open>Sessions evolve or are dropped, and the descriptors balance.\<close>

definition steps :: "session list \<times> trace \<Rightarrow> session list \<times> trace \<Rightarrow> bool" where
  "steps c c' \<longleftrightarrow> list_emb evolves (fst c') (fst c) \<and> balance c c'"

lemma steps_inv:
  assumes e: "steps (ss, tr) (ss', tr')" and i: "sessions_inv ss"
  shows "sessions_inv ss'"
proof -
  have emb: "list_emb evolves ss' ss" using e by (simp add: steps_def)
  then have "\<forall>s \<in> set ss'. session_ok s"
    by (induction rule: list_emb.induct) (auto simp: evolves_def)
  moreover have "distinct (tcp_table.keys ss')" "distinct (udp_table.keys ss')" "distinct (icmp_table.keys ss')"
    using tcp_table.emb_distinct [OF emb] udp_table.emb_distinct [OF emb] icmp_table.emb_distinct [OF emb] i
    by (auto simp: sessions_inv_alt evolves_def)
  ultimately show ?thesis by (simp add: sessions_inv_alt)
qed

lemma steps_Nil: "plain tr tr' \<Longrightarrow> steps ([], tr) ([], tr')"
  by (simp add: steps_def balance_plain)

lemma steps_Cons:
  "evolves s' s \<Longrightarrow> acts (session_fd s) tr (session_fd s') tr1 \<Longrightarrow> steps (ss, tr1) (ss', tr2) \<Longrightarrow>
   steps (s # ss, tr) (s' # ss', tr2)"
  by (auto simp: steps_def intro: balance_Cons)

lemma steps_drop:
  "acts (session_fd s) tr (session_fd s') tr1 \<Longrightarrow> session_fd s' < 0 \<Longrightarrow> steps (ss, tr1) (ss', tr2) \<Longrightarrow>
   steps (s # ss, tr) (ss', tr2)"
  by (auto simp: steps_def dest: balance_Cons intro: balance_drop)

lemma steps_update:
  assumes "i < length ss" "\<forall>s \<in> set ss. session_ok s" "evolves s' (ss ! i)"
    and "acts (session_fd (ss ! i)) tr (session_fd s') tr'"
  shows "steps (ss, tr) (ss[i := s'], tr')"
proof -
  have "list_emb evolves (ss[i := s']) ss"
    using assms(1-3)
  proof (induction ss arbitrary: i)
    case (Cons s ss)
    have "list_emb evolves ss ss" using Cons.prems(2) by (auto intro: list_emb_refl evolves_refl)
    then show ?case using Cons by (cases i) (auto intro: evolves_refl)
  qed simp
  then show ?thesis using balance_update [OF assms(1,4)] by (simp add: steps_def)
qed

section \<open>The passes of a turn\<close>

lemma monitor_pass_steps:
  "monitor_pass sys ss tr = (r, ss', tr') \<Longrightarrow> \<forall>s \<in> set ss. session_ok s \<Longrightarrow> steps (ss, tr) (ss', tr')"
proof (induction ss arbitrary: tr r ss' tr')
  case Nil
  then show ?case by (simp add: steps_Nil)
next
  case (Cons s ss)
  define f where "f = (case s of
      TCP c \<Rightarrow> if socket c \<ge> 0 then let (r, c, tr) = monitor_tcp_session sys c tr in (r, TCP c, tr)
               else (False, s, tr)
    | _ \<Rightarrow> (False, s, tr))"
  obtain r1 s1 tr1 where f: "f = (r1, s1, tr1)" by (rule prod_cases3)
  obtain r2 ss2 tr2 where p: "monitor_pass sys ss tr1 = (r2, ss2, tr2)" by (rule prod_cases3)
  have res: "ss' = s1 # ss2" "tr' = tr2"
    using Cons.prems(1) by (simp_all add: f_def [symmetric] f p)
  have "evolves s1 s \<and> acts (session_fd s) tr (session_fd s1) tr1"
  proof (cases "\<exists>c. s = TCP c \<and> 0 \<le> socket c")
    case True
    then obtain c where c: "s = TCP c" "0 \<le> socket c" by blast
    obtain r c' tr' where m: "monitor_tcp_session sys c tr = (r, c', tr')" by (rule prod_cases3)
    then have "s1 = TCP c'" "tr1 = tr'" using f c by (simp_all add: f_def)
    moreover have "tcp_keeps False c c' \<and> socket c' = socket c"
      using monitor_tcp_session_keeps [OF _ c(2) m] Cons.prems(2) c(1) by simp
    ultimately show ?thesis
      using monitor_tcp_session_fd [OF m] Cons.prems(2) c by (auto intro: evolves_tcp acts_plain)
  next
    case False
    then have "s1 = s" "tr1 = tr" using f by (auto simp: f_def split: session.splits if_splits)
    then show ?thesis using Cons.prems(2) by (simp add: evolves_refl)
  qed
  then show ?case using Cons.IH [OF p] Cons.prems(2) unfolding res by (auto intro: steps_Cons)
qed

text \<open>The check of a session: what stays evolves, what goes has no descriptor any more.\<close>

lemma check_session_steps:
  assumes "check_session sys s n m tr = (del, s', tr')" "session_ok s"
  shows "(del = 0 \<longrightarrow> evolves s' s) \<and> (del \<noteq> 0 \<longrightarrow> session_fd s' < 0)
    \<and> acts (session_fd s) tr (session_fd s') tr'"
proof (cases s)
  case (ICMP c)
  then show ?thesis
    using assms by (auto simp: check_session_def check_icmp_session_def Let_def icmp_inv_def
        evolves_refl intro!: acts_close acts_plain split: if_splits)
next
  case (UDP c)
  obtain d c' tr1 where k: "check_udp_session sys c n m tr = (d, c', tr1)" by (rule prod_cases3)
  then have r: "del = d" "s' = UDP c'" "tr' = tr1" using assms(1) UDP by (simp_all add: check_session_def)
  have "udp_keeps (c, tr) (c', tr')" using check_udp_session_keeps [OF _ k] assms(2) UDP r by simp
  moreover have "d \<noteq> 0 \<longrightarrow> u_state c' \<in> {UDP_CLOSED, UDP_BLOCKED}"
    using k by (auto simp: check_udp_session_eq Let_def split: prod.splits if_splits)
  ultimately show ?thesis
    using UDP r evolves_udp [of c tr c' tr'] check_udp_session_acts [OF k] assms(2)
    by (auto simp: udp_keeps_def udp_inv_def)
next
  case (TCP c)
  obtain d c' tr1 where k: "check_tcp_session sys c n m tr = (d, c', tr1)" by (rule prod_cases3)
  then have r: "del = d" "s' = TCP c'" "tr' = tr1" using assms(1) TCP by (simp_all add: check_session_def)
  have keeps: "tcp_keeps False c c'" using check_tcp_session_keeps [OF _ k, of False] assms(2) TCP by simp
  moreover have "d \<noteq> 0 \<longrightarrow> t_state c' = TCP_CLOSE"
    using k by (auto simp: check_tcp_session_eq Let_def split: prod.splits if_splits)
  ultimately show ?thesis
    using TCP r evolves_tcp [OF keeps] check_tcp_session_fd [OF k] tcp_inv_close assms(2)
    by (auto simp: tcp_keeps_def)
qed

lemma check_pass_steps:
  "check_pass sys n m now t ss tr = (t', ss', tr') \<Longrightarrow> \<forall>s \<in> set ss. session_ok s \<Longrightarrow> steps (ss, tr) (ss', tr')"
proof (induction ss arbitrary: t tr t' ss' tr')
  case Nil
  then show ?case by (simp add: steps_Nil)
next
  case (Cons s ss)
  obtain del s1 tr1 where c: "check_session sys s n m tr = (del, s1, tr1)" by (rule prod_cases3)
  obtain t1 t2 ss2 where p: "check_pass sys n m now t1 ss tr1 = (t2, ss2, tr')" "ss' = (if del \<noteq> 0 then ss2 else s1 # ss2)"
    using Cons.prems(1) by (auto simp: c Let_def split: prod.splits)
  have "steps (ss, tr1) (ss2, tr')" using Cons.IH [OF p(1)] Cons.prems(2) by simp
  then show ?case
    using check_session_steps [OF c] Cons.prems(2) p(2) by (auto intro: steps_Cons steps_drop)
qed

text \<open>\<open>keeps_list\<close>: the invariant and the balance, which also hold when a packet adds a session.\<close>

definition keeps_list :: "session list \<times> trace \<Rightarrow> session list \<times> trace \<Rightarrow> bool" where
  "keeps_list c c' \<longleftrightarrow> sessions_inv (fst c) \<longrightarrow> sessions_inv (fst c') \<and> balance c c'"

lemma keeps_list_refl [simp, intro]: "keeps_list c c"
  by (simp add: keeps_list_def)

lemma keeps_list_trans [trans]: "keeps_list a b \<Longrightarrow> keeps_list b c \<Longrightarrow> keeps_list a c"
  by (auto simp: keeps_list_def intro: balance_trans)

lemma keeps_list_plain: "plain tr tr' \<Longrightarrow> keeps_list (ss, tr) (ss, tr')"
  by (simp add: keeps_list_def balance_plain)

lemma sessions_ok: "sessions_inv ss \<Longrightarrow> \<forall>s \<in> set ss. session_ok s"
  by (simp add: sessions_inv_alt)

lemma keeps_list_steps:
  assumes "\<forall>s \<in> set ss. session_ok s \<Longrightarrow> steps (ss, tr) (ss', tr')"
  shows "keeps_list (ss, tr) (ss', tr')"
  using assms [OF sessions_ok] steps_inv [of ss tr ss' tr'] by (auto simp: keeps_list_def steps_def)

lemma loop_turn_keeps:
  assumes "loop_turn sys maxsessions last_check ss tr = (t, last', ss', tr')"
  shows "keeps_list (ss, tr) (ss', tr')"
proof -
  obtain r ss1 tr1 where m: "monitor_pass sys ss tr = (r, ss1, tr1)" by (rule prod_cases3)
  have "keeps_list (ss, tr) (ss1, tr1)" by (rule keeps_list_steps [OF monitor_pass_steps [OF m]])
  also have "keeps_list (ss1, tr1) (ss', tr')"
  proof (cases "sys_ms sys tr1 - last_check > EPOLL_MIN_CHECK")
    case False
    then show ?thesis using assms by (auto simp: loop_turn_def m Let_def intro: keeps_list_plain)
  next
    case True
    obtain t1 ss2 tr2 where c: "check_pass sys (count_sessions ss) maxsessions (sys_time sys (tr1 @ [EClock]))
        EPOLL_TIMEOUT ss1 (tr1 @ [EClock, ETime]) = (t1, ss2, tr2)" by (rule prod_cases3)
    then have "ss' = ss2 \<and> tr' = tr2" using assms True by (auto simp: loop_turn_def m Let_def)
    moreover have "keeps_list (ss1, tr1) (ss1, tr1 @ [EClock, ETime])" by (simp add: keeps_list_plain)
    moreover have "keeps_list (ss1, tr1 @ [EClock, ETime]) (ss2, tr2)"
      by (rule keeps_list_steps [OF check_pass_steps [OF c]])
    ultimately show ?thesis using keeps_list_trans by blast
  qed
  finally show ?thesis .
qed

section \<open>Events\<close>

lemma check_tun_keeps_list:
  "send_closed sys \<Longrightarrow> check_tun sys proc loglevel args evs n m ss tr = Inr (r, ss', tr') \<Longrightarrow>
   keeps_list (ss, tr) (ss', tr')"
  by (auto simp: keeps_list_def dest: check_tun_all check_tun_balance)

lemma tun_loop_keeps:
  assumes "tun_loop sys proc loglevel args tun evs n m ss tr = Some r" "send_closed sys" "r = Inr (e, ss', tr')"
  shows "keeps_list (ss, tr) (ss', tr')"
proof -
  have "send_closed sys \<longrightarrow> (\<forall>e ss' tr'. r = Inr (e, ss', tr') \<longrightarrow> keeps_list (ss, tr) (ss', tr'))"
  proof (rule tun_loop.raw_induct [of "\<lambda>sys proc loglevel args tun evs n m ss tr r.
      send_closed sys \<longrightarrow> (\<forall>e ss' tr'. r = Inr (e, ss', tr') \<longrightarrow> keeps_list (ss, tr) (ss', tr'))", OF _ assms(1)],
      goal_cases)
    case (1 loop sys proc loglevel args tun evs n m ss tr r)
    have s: "keeps_list (ss, tr) (ss, tr @ [EReadable tun])" by (simp add: keeps_list_plain)
    show ?case
    proof (intro impI allI)
      fix e ss' tr' assume sc: "send_closed sys" and r: "r = Inr (e, ss', tr')"
      show "keeps_list (ss, tr) (ss', tr')"
      proof (cases "sys_readable sys tr tun")
        case False
        then show ?thesis using 1(2) r s by simp
      next
        case True
        then obtain k ss1 tr1 where c: "check_tun sys proc loglevel args evs n m ss (tr @ [EReadable tun]) = Inr (k, ss1, tr1)"
          using 1(2) r by (auto split: sum.splits)
        have "keeps_list (ss, tr) (ss1, tr1)" using s check_tun_keeps_list [OF sc c] by (rule keeps_list_trans)
        moreover have "ss' = ss1 \<and> tr' = tr1 \<or> loop sys proc loglevel args tun evs n m ss1 tr1 = Some r"
          using 1(2) True c r by (auto split: if_splits)
        ultimately show ?thesis using 1(1) sc r keeps_list_trans by blast
      qed
    qed
  qed
  with assms(2,3) show ?thesis by blast
qed

lemma udp_loop_keeps:
  assumes "udp_loop sys evs s tr = Some r" "udp_inv s" "0 \<le> socket s" "r = Inr (s', tr')"
  shows "udp_keeps (s, tr) (s', tr') \<and> writes_ok tr tr'"
proof -
  have "udp_inv s \<longrightarrow> 0 \<le> socket s \<longrightarrow> (\<forall>s' tr'. r = Inr (s', tr') \<longrightarrow> udp_keeps (s, tr) (s', tr') \<and> writes_ok tr tr')"
  proof (rule udp_loop.raw_induct [of "\<lambda>sys evs s tr r. udp_inv s \<longrightarrow> 0 \<le> socket s \<longrightarrow>
      (\<forall>s' tr'. r = Inr (s', tr') \<longrightarrow> udp_keeps (s, tr) (s', tr') \<and> writes_ok tr tr')", OF _ assms(1)], goal_cases)
    case (1 loop sys evs s tr r)
    show ?case
    proof (intro impI allI)
      fix s' tr' assume i: "udp_inv s" "0 \<le> socket s" and r: "r = Inr (s', tr')"
      let ?tr = "tr @ [EReadable (socket s)]"
      have q: "udp_keeps (s, tr) (s, ?tr) \<and> writes_ok tr ?tr"
        using i by (simp add: udp_keeps_def fd_step_silent)
      consider (stop) "s' = s" "tr' = tr \<or> tr' = ?tr"
        | (more) s1 tr1 where "check_udp_socket sys evs s ?tr = Inr (s1, tr1)" "loop sys evs s1 tr1 = Some r"
        using 1(2) r by (auto split: if_splits sum.splits)
      then show "udp_keeps (s, tr) (s', tr') \<and> writes_ok tr tr'"
      proof cases
        case stop
        then show ?thesis using i(1) q by auto
      next
        case (more s1 tr1)
        have "udp_keeps (s, ?tr) (s1, tr1)" "socket s1 = socket s \<and> writes_ok ?tr tr1"
          using check_udp_socket_keeps [OF i more(1)] check_udp_socket_writes [OF more(1) i(1)] by simp_all
        moreover from this have "udp_keeps (s1, tr1) (s', tr') \<and> writes_ok tr1 tr'"
          using 1(1) [rule_format, OF more(2) _ _ r] i(2) by (simp add: udp_keeps_def)
        ultimately show ?thesis using q udp_keeps_trans writes_ok_trans by blast
      qed
    qed
  qed
  with assms(2-4) show ?thesis by blast
qed

lemma session_event_evolves:
  assumes "session_event sys evs s tr = Inr (s', tr')" "session_ok s" "0 \<le> session_fd s"
  shows "evolves s' s \<and> acts (session_fd s) tr (session_fd s') tr'"
proof (cases s)
  case (ICMP c)
  then obtain c' where c': "check_icmp_socket sys evs c tr = Inr (c', tr')" "s' = ICMP c'"
    using assms(1) by (auto simp: session_event_def rbind_eq_Inr)
  have c: "icmp_inv c" using assms(2) ICMP by simp
  have k: "icmp_keeps (c, tr) (c', tr')" by (rule check_icmp_socket_keeps [OF c c'(1)])
  then have "socket c' = socket c" by (simp add: icmp_keeps_def)
  then show ?thesis
    using evolves_icmp [OF k] acts_plain [OF check_icmp_socket_plain [OF c'(1) c]] ICMP c'(2) by simp
next
  case (UDP c)
  then obtain c' where c': "returned (udp_loop sys evs c tr) = Inr (c', tr')" "s' = UDP c'"
    using assms(1) by (auto simp: session_event_def rbind_eq_Inr)
  then have "udp_loop sys evs c tr = Some (Inr (c', tr'))"
    by (cases "udp_loop sys evs c tr") (auto simp: returned_def)
  from udp_loop_keeps [OF this _ _ refl] show ?thesis
    using assms(2,3) UDP c'(2) evolves_udp [of c tr c' tr'] by (auto simp: udp_keeps_def acts_def)
next
  case (TCP c)
  then obtain c' where c': "check_tcp_socket sys evs c tr = Inr (c', tr')" "s' = TCP c'"
    using assms(1) by (auto simp: session_event_def rbind_eq_Inr)
  have c: "tcp_inv c" "0 \<le> socket c" using assms(2,3) TCP by simp_all
  show ?thesis
    using check_tcp_socket_fd [OF c'(1) c(2)] c(1) evolves_tcp [OF check_tcp_socket_keeps [OF c'(1) c]] TCP c'(2) by simp
qed

text \<open>The kernel only reports events on descriptors.\<close>

definition wait_ok :: "sys \<Rightarrow> bool" where
  "wait_ok sys \<longleftrightarrow> (\<forall>tr t ws fd evs. sys_epoll_wait sys tr t = Inr ws \<longrightarrow> (WSession fd, evs) \<in> set ws \<longrightarrow> 0 \<le> fd)"

lemma dispatch_keeps:
  assumes "dispatch sys proc loglevel args tun n m ws ss tr = Inr (run, ss', tr')" "send_closed sys"
    and "\<And>fd evs. (WSession fd, evs) \<in> set ws \<Longrightarrow> 0 \<le> fd"
  shows "keeps_list (ss, tr) (ss', tr')"
  using assms(1,3)
proof (induction ws arbitrary: ss tr)
  case Nil
  then show ?case by simp
next
  case (Cons we ws)
  obtain w evs where we: "we = (w, evs)" by fastforce
  have IH: "keeps_list (ss1, tr1) (ss', tr')"
    if "dispatch sys proc loglevel args tun n m ws ss1 tr1 = Inr (run, ss', tr')" for ss1 tr1
    by (rule Cons.IH [OF that]) (use Cons.prems(2) in \<open>auto simp: we\<close>)
  show ?case
  proof (cases w)
    case WPipe
    then show ?thesis using Cons.prems(1) by (auto simp: we intro: keeps_list_plain)
  next
    case WTun
    then obtain e ss1 tr1 where t: "tun_loop sys proc loglevel args tun evs n m ss tr = Some (Inr (e, ss1, tr1))"
      using Cons.prems(1) by (cases "tun_loop sys proc loglevel args tun evs n m ss tr")
        (auto simp: we returned_def rbind_eq_Inr)
    have "ss' = ss1 \<and> tr' = tr1 \<or> dispatch sys proc loglevel args tun n m ws ss1 tr1 = Inr (run, ss', tr')"
      using Cons.prems(1) by (auto simp: we WTun t returned_def split: if_splits)
    then show ?thesis
      using tun_loop_keeps [OF t assms(2) refl] IH [of ss1 tr1] keeps_list_trans by blast
  next
    case (WSession fd)
    show ?thesis
    proof (cases "find_idx (\<lambda>s. session_fd s = fd) ss")
      case None
      then show ?thesis using Cons.prems(1) IH [of ss tr] by (simp add: we WSession)
    next
      case (Some i)
      then obtain s1 tr1 where e: "session_event sys evs (ss ! i) tr = Inr (s1, tr1)"
        "dispatch sys proc loglevel args tun n m ws (ss[i := s1]) tr1 = Inr (run, ss', tr')"
        using Cons.prems(1) by (auto simp: we WSession rbind_eq_Inr)
      have i: "i < length ss" "0 \<le> session_fd (ss ! i)"
        using Some Cons.prems(2) [of fd evs] by (auto simp: find_idx_Some we WSession)
      have "keeps_list (ss, tr) (ss[i := s1], tr1)"
        using session_event_evolves [OF e(1) _ i(2)] i(1) by (intro keeps_list_steps steps_update) auto
      then show ?thesis using IH [OF e(2)] keeps_list_trans by blast
    qed
  qed
qed

lemma event_turn_keeps:
  assumes "event_turn sys proc loglevel args tun m (l0, ss, tr) = Inr (run, l1, ss', tr')"
    and "send_closed sys" "wait_ok sys"
  shows "keeps_list (ss, tr) (ss', tr')"
proof -
  obtain t l ss1 tr1 where l: "loop_turn sys m l0 ss tr = (t, l, ss1, tr1)" by (rule prod_cases4)
  have k: "keeps_list (ss, tr) (ss1, tr1 @ [EWait t])"
    using loop_turn_keeps [OF l] keeps_list_trans keeps_list_plain [of tr1 "tr1 @ [EWait t]" ss1] by auto
  show ?thesis
  proof (cases "sys_epoll_wait sys tr1 t")
    case (Inl e)
    then show ?thesis using assms(1) k by (simp add: event_turn_def l)
  next
    case (Inr ws)
    have d: "dispatch sys proc loglevel args tun (count_sessions ss) m ws ss1 (tr1 @ [EWait t]) = Inr (run, ss', tr')"
      using assms(1) by (auto simp: event_turn_def l Inr rbind_eq_Inr)
    have ok: "(WSession fd, evs) \<in> set ws \<Longrightarrow> 0 \<le> fd" for fd evs
      using assms(3) Inr unfolding wait_ok_def by blast
    show ?thesis using k dispatch_keeps [OF d assms(2) ok] by (rule keeps_list_trans)
  qed
qed

section \<open>Stopping all sessions\<close>

lemma terminate_session_steps:
  assumes "terminate_session sys s tr = (s', tr')" "session_ok s"
  shows "case s' of None \<Rightarrow> session_fd s < 0 \<and> tr' = tr
    | Some s' \<Rightarrow> evolves s' s \<and> acts (session_fd s) tr (session_fd s') tr'"
proof (cases s)
  case (ICMP c)
  then show ?thesis
    using assms by (auto simp: terminate_session_def evolves_def icmp_inv_def tcp_key_def udp_key_def icmp_key_def)
next
  case (UDP c)
  then show ?thesis
    using assms by (auto simp: terminate_session_def evolves_def udp_inv_def udp_addrs_ok_def tcp_key_def udp_key_def
        udp_ident_def icmp_key_def split: if_splits)
next
  case (TCP c)
  show ?thesis
  proof (cases "t_state c \<noteq> TCP_CLOSING \<and> t_state c \<noteq> TCP_CLOSE")
    case True
    obtain c' where w: "write_rst sys c tr = (c', tr')" "s' = Some (TCP c')"
      using assms(1) TCP True by (auto simp: terminate_session_def split: prod.splits)
    have "tcp_keeps False c c'" using tcp_keeps_rst [OF w(1)] assms(2) TCP True by simp
    then show ?thesis
      using evolves_tcp [of False c c'] keeps_fd_step [OF write_rst_fd [OF w(1)]] assms(2) w(2) TCP by simp
  next
    case False
    then show ?thesis using assms TCP by (auto simp: terminate_session_def evolves_refl)
  qed
qed

lemma check_allowed_steps:
  "check_allowed sys ss tr = (ss', tr') \<Longrightarrow> \<forall>s \<in> set ss. session_ok s \<Longrightarrow> steps (ss, tr) (ss', tr')"
proof (induction ss arbitrary: tr ss' tr')
  case Nil
  then show ?case by (simp add: steps_Nil)
next
  case (Cons s ss)
  obtain s1 tr1 where t: "terminate_session sys s tr = (s1, tr1)" by fastforce
  obtain ss2 tr2 where p: "check_allowed sys ss tr1 = (ss2, tr2)" by fastforce
  have r: "ss' = (case s1 of None \<Rightarrow> ss2 | Some s \<Rightarrow> s # ss2)" "tr' = tr2"
    using Cons.prems(1) by (auto simp: t p)
  have "steps (ss, tr1) (ss2, tr2)" using Cons.IH [OF p] Cons.prems(2) by simp
  then show ?case
    using terminate_session_steps [OF t] Cons.prems(2) r steps_drop [of s tr s tr1 ss ss2 tr2]
    by (auto split: option.splits intro: steps_Cons)
qed

lemma clear_closes: "clear ss tr = (ss', tr') \<Longrightarrow> ss' = [] \<and> balance (ss, tr) (ss', tr')"
proof (induction ss arbitrary: tr)
  case (Cons s ss)
  define tr1 where "tr1 = (if session_fd s \<ge> 0 then tr @ [EClose (session_fd s)] else tr)"
  have "clear ss tr1 = (ss', tr')" using Cons.prems by (simp add: tr1_def)
  from Cons.IH [OF this] obtain evs where "ss' = []" "tr' = tr1 @ evs" "held ss + mset (opens evs) = mset (closes evs)"
    "\<forall>b. ETunWrite b \<in> set evs \<longrightarrow> packet_ok b"
    by (auto simp: balance_def)
  then show ?case
    by (auto simp: tr1_def balance_def)
qed auto

section \<open>The properties\<close>

inductive loop_step :: "sys \<Rightarrow> proc \<Rightarrow> int \<Rightarrow> arguments \<Rightarrow> int \<Rightarrow> int \<Rightarrow>
    int \<times> session list \<times> trace \<Rightarrow> int \<times> session list \<times> trace \<Rightarrow> bool"
  for sys proc loglevel args tun m where
  turn: "event_turn sys proc loglevel args tun m c = Inr (True, c') \<Longrightarrow> loop_step sys proc loglevel args tun m c c'"

lemma loop_steps_keep:
  assumes "(loop_step sys proc loglevel args tun m)\<^sup>*\<^sup>* c c'" "send_closed sys" "wait_ok sys"
  shows "keeps_list (snd c) (snd c')"
  using assms(1)
proof (induction rule: rtranclp_induct)
  case (step c1 c2)
  obtain l1 ss1 tr1 l2 ss2 tr2 where c: "c1 = (l1, ss1, tr1)" "c2 = (l2, ss2, tr2)" by (metis prod_cases3)
  with step.hyps(2) have "event_turn sys proc loglevel args tun m (l1, ss1, tr1) = Inr (True, l2, ss2, tr2)"
    by (auto elim: loop_step.cases)
  from step.IH event_turn_keeps [OF this assms(2,3)] show ?case
    using keeps_list_trans by (simp add: c)
qed simp

lemma events_loop_keeps:
  assumes "events_loop sys proc loglevel args tun m c = Some r" "send_closed sys" "wait_ok sys" "r = Inr c'"
  shows "keeps_list (snd c) (snd c')"
proof -
  have "send_closed sys \<longrightarrow> wait_ok sys \<longrightarrow> (\<forall>c'. r = Inr c' \<longrightarrow> keeps_list (snd c) (snd c'))"
  proof (rule events_loop.raw_induct [of "\<lambda>sys proc loglevel args tun m c r. send_closed sys \<longrightarrow> wait_ok sys \<longrightarrow>
      (\<forall>c'. r = Inr c' \<longrightarrow> keeps_list (snd c) (snd c'))", OF _ assms(1)], goal_cases)
    case (1 loop sys proc loglevel args tun m c r)
    show ?case
    proof (intro impI allI)
      fix c' assume ok: "send_closed sys" "wait_ok sys" and r: "r = Inr c'"
      obtain l ss tr where c: "c = (l, ss, tr)" by (rule prod_cases3)
      obtain run l1 ss1 tr1 where t: "event_turn sys proc loglevel args tun m (l, ss, tr) = Inr (run, l1, ss1, tr1)"
        using 1(2) r by (auto simp: c split: sum.splits)
      have "c' = (l1, ss1, tr1) \<or> loop sys proc loglevel args tun m (l1, ss1, tr1) = Some r"
        using 1(2) r by (auto simp: c t split: if_splits)
      moreover have "loop sys proc loglevel args tun m (l1, ss1, tr1) = Some r \<Longrightarrow> keeps_list (ss1, tr1) (snd c')"
        using 1(1) [rule_format, OF _ ok r] by fastforce
      ultimately show "keeps_list (snd c) (snd c')"
        using event_turn_keeps [OF t ok] keeps_list_trans [of "(ss, tr)" "(ss1, tr1)" "snd c'"] by (auto simp: c)
    qed
  qed
  with assms(2-4) show ?thesis by blast
qed

lemma handle_events_keeps:
  assumes "handle_events sys proc loglevel args tun rlim_cur opened ss tr = Inr (ss', tr')" "send_closed sys" "wait_ok sys"
  shows "keeps_list (ss, tr) (ss', tr')"
proof -
  obtain ss1 tr1 where a: "check_allowed sys ss tr = (ss1, tr1)" by fastforce
  have k: "keeps_list (ss, tr) (ss1, tr1)" by (rule keeps_list_steps [OF check_allowed_steps [OF a]])
  show ?thesis
  proof (cases opened)
    case False
    then show ?thesis using assms(1) k by (simp add: handle_events_def a)
  next
    case True
    then obtain l where "returned (events_loop sys proc loglevel args tun (max_sessions rlim_cur) (0, ss1, tr1)) = Inr (l, ss', tr')"
      using assms(1) by (auto simp: handle_events_def a rbind_eq_Inr)
    then have "events_loop sys proc loglevel args tun (max_sessions rlim_cur) (0, ss1, tr1) = Some (Inr (l, ss', tr'))"
      by (cases "events_loop sys proc loglevel args tun (max_sessions rlim_cur) (0, ss1, tr1)") (auto simp: returned_def)
    from events_loop_keeps [OF this assms(2,3) refl] k show ?thesis using keeps_list_trans by simp
  qed
qed

text \<open>
  C1: In every state the event loop can reach, whatever packets, socket events, clock and kernel do:
  the session list has at most one session per flow of each protocol, every session is in order, and
  each descriptor registered with epoll so far is either held by one session or was closed, once.
\<close>

theorem event_loop_inv:
  assumes "(loop_step sys proc loglevel args tun m)\<^sup>*\<^sup>* (0, init, []) (last_check, ss, tr)" "send_closed sys" "wait_ok sys"
  shows "sessions_inv ss \<and> mset (opens tr) = mset (filter (\<lambda>fd. 0 \<le> fd) (map session_fd ss)) + mset (closes tr)"
  using loop_steps_keep [OF assms] by (simp add: keeps_list_def balance_def held_def init_def)


text \<open>
  C2: A run of the thread (\<open>handle_events\<close>) followed by \<open>clear\<close> leaves no session and no descriptor:
  every descriptor registered on the way has been closed exactly once, and nothing else has been.
\<close>

theorem run_leaks_no_descriptor:
  assumes "handle_events sys proc loglevel args tun rlim_cur opened init [] = Inr (ss, tr)"
    and "clear ss tr = (ss', tr')" "send_closed sys" "wait_ok sys"
  shows "ss' = [] \<and> mset (opens tr') = mset (closes tr')"
proof -
  have "keeps_list (init, []) (ss, tr)" by (rule handle_events_keeps [OF assms(1,3,4)])
  then have "balance (init, []) (ss, tr)" by (simp add: keeps_list_def init_def)
  also have "balance (ss, tr) (ss', tr')" using clear_closes [OF assms(2)] by blast
  finally show ?thesis using clear_closes [OF assms(2)] by (simp add: balance_def init_def)
qed

section \<open>Sleeping\<close>

definition clock_mono :: "sys \<Rightarrow> bool" where
  "clock_mono sys \<longleftrightarrow> (\<forall>tr evs. sys_time sys tr \<le> sys_time sys (tr @ evs))"

text \<open>A session that is still active after its check had not expired.\<close>

lemma check_session_active:
  assumes "check_session sys s n m tr = (del, s', tr')" "session_active s'" "session_ok s" "del = 0"
  shows "sys_time sys tr \<le> session_deadline s' n m"
proof (cases s)
  case (ICMP c)
  then show ?thesis
    using assms by (auto simp: check_session_def check_icmp_session_def session_deadline_def Let_def split: if_splits)
next
  case (UDP c)
  then show ?thesis
    using assms by (auto simp: check_session_def check_udp_session_eq udp_timed_out_def udp_closed_def
        udp_reset_counters_def session_deadline_def session_active_def Let_def split: if_splits)
next
  case (TCP c)
  obtain c' where k: "check_tcp_session sys c n m tr = (del, c', tr')" "s' = TCP c'"
    using assms(1) TCP by (auto simp: check_session_def split: prod.splits)
  obtain c1 tr1 c2 where t: "tcp_timed_out sys c n m tr = (c1, tr1)"
    and d: "tcp_closed sys c1 tr1 = (c2, tr')" and c': "c' = tcp_reset_counters c2"
    using k(1) by (auto simp: check_tcp_session_eq Let_def split: prod.splits)
  have a: "t_state c' \<noteq> TCP_CLOSING" "t_state c' \<noteq> TCP_CLOSE" using assms(2) k(2) by (simp_all add: session_active_def)
  then have "c2 = c1" "t_state c1 \<noteq> TCP_CLOSING" "t_state c1 \<noteq> TCP_CLOSE"
    using d by (auto simp: c' tcp_closed_def split: if_splits)
  then have "c1 = c" "sys_time sys tr \<le> t_time c + get_tcp_timeout c n m" "c' = c"
    using t a by (auto simp: tcp_timed_out_def c' tcp_reset_counters_def write_rst_eq Let_def split: if_splits)
  then show ?thesis by (simp add: k(2) session_deadline_def)
qed

definition wakes :: "session list \<Rightarrow> int \<Rightarrow> int \<Rightarrow> int \<Rightarrow> int set" where
  "wakes ss n m now = (\<lambda>s. session_deadline s n m - now + 1) ` {s \<in> set ss. session_active s}"

lemma check_pass_sleep:
  "check_pass sys n m now t ss tr = (t', ss', tr') \<Longrightarrow> \<forall>s \<in> set ss. session_ok s \<Longrightarrow> clock_mono sys \<Longrightarrow>
   now \<le> sys_time sys tr \<Longrightarrow>
   t' = Min (insert t (wakes ss' n m now)) \<and> (\<forall>w \<in> wakes ss' n m now. 0 < w)"
proof (induction ss arbitrary: t tr t' ss' tr')
  case Nil
  then show ?case by (simp add: wakes_def)
next
  case (Cons s ss)
  obtain del s1 tr1 where c: "check_session sys s n m tr = (del, s1, tr1)" by (rule prod_cases3)
  define w where "w = session_deadline s1 n m - now + 1"
  define t1 where "t1 = (if session_active s1 \<and> del = 0 \<and> w > 0 \<and> w < t then w else t)"
  obtain t2 ss2 tr2 where p: "check_pass sys n m now t1 ss tr1 = (t2, ss2, tr2)" by (rule prod_cases3)
  have r: "t' = t2" "ss' = (if del \<noteq> 0 then ss2 else s1 # ss2)"
    using Cons.prems(1) p unfolding check_pass.simps c Let_def prod.case w_def [symmetric] t1_def [symmetric] by simp_all
  have "\<exists>evs. tr1 = tr @ evs"
    using check_session_steps [OF c] Cons.prems(2) by (auto simp: acts_def fd_step_def)
  then have "now \<le> sys_time sys tr1"
    using Cons.prems(3,4) unfolding clock_mono_def by (meson order_trans)
  then have IH: "t2 = Min (insert t1 (wakes ss2 n m now))" "\<forall>w \<in> wakes ss2 n m now. 0 < w"
    using Cons.IH [OF p] Cons.prems(2,3) by simp_all
  show ?case
  proof (cases "session_active s1 \<and> del = 0")
    case True
    then have w: "0 < w" using check_session_active [OF c] Cons.prems(2,4) by (force simp: w_def)
    have "wakes ss' n m now = insert w (wakes ss2 n m now)"
      using True by (auto simp: wakes_def r w_def)
    moreover have "t1 = min t w" using True w by (auto simp: t1_def)
    moreover have "finite (wakes ss2 n m now)" by (simp add: wakes_def)
    ultimately show ?thesis
      using IH w by (cases "wakes ss2 n m now = {}") (auto simp: r min.assoc min.left_commute)
  next
    case False
    then have "wakes ss' n m now = wakes ss2 n m now" "t1 = t" by (auto simp: wakes_def r t1_def)
    then show ?thesis using IH by (simp add: r)
  qed
qed

text \<open>
  C11: How long the loop sleeps: 100 ms, or exactly until one second past the next deadline of the
  sessions that are still active, at most an hour. It never waits for ever, it never polls without
  waiting, and no active session expires unnoticed for longer than that second.
\<close>

theorem loop_sleeps_to_next_deadline:
  assumes "loop_turn sys m last_check ss tr = (t, last', ss', tr')" "sessions_inv ss" "clock_mono sys"
  shows "0 < t \<and> t \<le> 3600 * 1000 \<and> (t = 100 \<or> (\<exists>now. sys_time sys tr \<le> now \<and> now \<le> sys_time sys tr' \<and>
    t = 1000 * Min (insert 3600 ((\<lambda>s. session_deadline s (count_sessions ss) m - now + 1)
      ` {s \<in> set ss'. session_active s}))))"
proof -
  obtain r ss1 tr1 where m: "monitor_pass sys ss tr = (r, ss1, tr1)" by (rule prod_cases3)
  have st1: "steps (ss, tr) (ss1, tr1)" by (rule monitor_pass_steps [OF m sessions_ok [OF assms(2)]])
  have ok1: "\<forall>s \<in> set ss1. session_ok s" using steps_inv [OF st1 assms(2)] by (rule sessions_ok)
  show ?thesis
  proof (cases "sys_ms sys tr1 - last_check > EPOLL_MIN_CHECK \<and> \<not> r")
    case False
    then have "t = 100" using assms(1) by (auto simp: loop_turn_def m Let_def EPOLL_MIN_CHECK_def split: prod.splits if_splits)
    then show ?thesis by simp
  next
    case True
    let ?now = "sys_time sys (tr1 @ [EClock])"
    obtain t1 ss2 tr2 where c: "check_pass sys (count_sessions ss) m ?now EPOLL_TIMEOUT ss1 (tr1 @ [EClock, ETime]) = (t1, ss2, tr2)"
      by (rule prod_cases3)
    then have res: "t = t1 * 1000" "ss' = ss2" "tr' = tr2" using assms(1) True by (auto simp: loop_turn_def m Let_def)
    have mono: "sys_time sys a \<le> sys_time sys (a @ b)" for a b using assms(3) by (simp add: clock_mono_def)
    have "?now \<le> sys_time sys (tr1 @ [EClock, ETime])" using mono [of "tr1 @ [EClock]" "[ETime]"] by simp
    from check_pass_sleep [OF c ok1 assms(3) this]
    have t1: "t1 = Min (insert 3600 (wakes ss2 (count_sessions ss) m ?now))"
      and pos: "\<forall>w \<in> wakes ss2 (count_sessions ss) m ?now. 0 < w" by (simp_all add: EPOLL_TIMEOUT_def)
    have fin: "finite (wakes ss2 (count_sessions ss) m ?now)" by (simp add: wakes_def)
    then have "0 < t1" "t1 \<le> 3600" using pos by (simp_all add: t1)
    moreover have "sys_time sys tr \<le> ?now \<and> ?now \<le> sys_time sys tr'"
    proof -
      obtain e1 e2 where "tr1 = tr @ e1" "tr2 = (tr1 @ [EClock, ETime]) @ e2"
        using st1 check_pass_steps [OF c ok1] by (auto simp: steps_def balance_def)
      then show ?thesis using mono [of tr "e1 @ [EClock]"] mono [of "tr1 @ [EClock]" "ETime # e2"] by (simp add: res)
    qed
    ultimately show ?thesis using t1 unfolding res wakes_def by auto
  qed
qed

section \<open>A new start\<close>

text \<open>
  When the thread starts, \<open>check_allowed\<close> ends every session of an earlier run: none of those that
  stay counts as active any more, and all it does on the way is to write one packet to the client, a
  reset, for each TCP session that was open.
\<close>

theorem check_allowed_stops_all:
  assumes "check_allowed sys ss tr = (ss', tr')"
  shows "count_sessions ss' = 0 \<and> (\<exists>bs. tr' = tr @ map ETunWrite bs
    \<and> length bs = length (filter (\<lambda>s. is_TCP s \<and> session_active s) ss))"
  using assms
proof (induction ss arbitrary: tr ss' tr')
  case Nil
  then show ?case by (simp add: count_sessions_def)
next
  case (Cons s ss)
  obtain s1 tr1 where t: "terminate_session sys s tr = (s1, tr1)" by fastforce
  obtain ss2 tr2 where p: "check_allowed sys ss tr1 = (ss2, tr2)" by fastforce
  obtain bs where IH: "count_sessions ss2 = 0" "tr2 = tr1 @ map ETunWrite bs"
    "length bs = length (filter (\<lambda>s. is_TCP s \<and> session_active s) ss)"
    using Cons.IH [OF p] by blast
  have r: "ss' = (case s1 of None \<Rightarrow> ss2 | Some s \<Rightarrow> s # ss2)" "tr' = tr2"
    using Cons.prems(1) by (auto simp: t p)
  have "(case s1 of None \<Rightarrow> True | Some x \<Rightarrow> \<not> session_active x)
    \<and> (if is_TCP s \<and> session_active s then \<exists>b. tr1 = tr @ [ETunWrite b] else tr1 = tr)"
    using t by (cases s) (auto simp: terminate_session_def session_active_def write_rst_eq Let_def split: if_splits udp_state.splits)
  then have "count_sessions ss' = 0"
    and "\<exists>pre. tr1 = tr @ map ETunWrite pre \<and> length pre = (if is_TCP s \<and> session_active s then 1 else 0)"
    using IH(1) r by (auto simp: count_sessions_def split: option.splits if_splits intro: exI [of _ "[_]"])
  moreover from this(2) obtain pre where "tr1 = tr @ map ETunWrite pre"
    "length pre = (if is_TCP s \<and> session_active s then 1 else 0)" by blast
  ultimately show ?case using IH r(2) by (intro conjI exI [of _ "pre @ bs"]) auto
qed

text \<open>
  An error on a UDP socket never reaches \<open>check_udp_socket\<close>, whose branch for it is dead: the session
  is left as it is, and the next wait reports the same error at once.
\<close>

lemma udp_error_ignored: "has_event evs EPOLLERR \<Longrightarrow> session_event sys evs (UDP c) tr = Inr (UDP c, tr)"
  by (simp add: session_event_def udp_loop.simps returned_def)

section \<open>A run on one packet\<close>

text \<open>The tun device delivers the packet \<open>p\<close> once; every wait reports \<open>ws\<close>.\<close>

definition packet_sys :: "bytes \<Rightarrow> (wakeup \<times> u32) list \<Rightarrow> sys" where
  "packet_sys p ws = calm_sys\<lparr>sys_epoll_wait := \<lambda>_ _. Inr ws,
     sys_readable := \<lambda>tr _. ETunRead MTU \<notin> set tr, sys_tun_read := \<lambda>_ _. Inr p\<rparr>"

abbreviation one_packet_sys :: "(wakeup \<times> u32) list \<Rightarrow> sys" where
  "one_packet_sys \<equiv> packet_sys sample_datagram"

lemma packet_sys_simps [simp]:
  "sys_time (packet_sys p ws) = sys_time calm_sys" "sys_ms (packet_sys p ws) = sys_ms calm_sys"
  "sys_epoll_wait (packet_sys p ws) tr t = Inr ws"
  "sys_readable (packet_sys p ws) tr fd = (ETunRead MTU \<notin> set tr)"
  "sys_tun_read (packet_sys p ws) tr n = Inr p"
  "sys_socket (packet_sys p ws) = sys_socket calm_sys" "sys_protect (packet_sys p ws) = sys_protect calm_sys"
  "sys_sendto (packet_sys p ws) = sys_sendto calm_sys" "sys_heap (packet_sys p ws) = sys_heap calm_sys"
  "sys_send (packet_sys p ws) = sys_send calm_sys"
  by (simp_all add: packet_sys_def)

lemma packet_sys_ok: "send_closed (packet_sys p ws)" "(\<And>fd e. (WSession fd, e) \<notin> set ws) \<Longrightarrow> wait_ok (packet_sys p ws)"
  by (auto simp: send_closed_def wait_ok_def)

lemma packet_turn_start: "loop_turn (packet_sys p ws) m 0 [] [] = (100, 0, [], [EClock])"
  by (simp add: loop_turn_def count_sessions_def EPOLL_MIN_CHECK_def EPOLL_TIMEOUT_def)

text \<open>The first turn, given what \<open>handle_ip\<close> makes of the packet.\<close>

lemma packet_turn:
  fixes p ws
  defines "sys \<equiv> packet_sys p ((WTun, EPOLLIN) # ws)" and "tr0 \<equiv> [EClock, EWait 100, EReadable 5, ETunRead MTU]"
  assumes "p \<noteq> []" and h: "\<And>junk. \<exists>ss evs. handle_ip sys sample_proc 3 sample_args (p @ junk) (length p) 0 10 [] tr0
      = Inr (ss, tr0 @ evs) \<and> P ss evs"
  shows "\<exists>ss evs. event_turn sys sample_proc 3 sample_args 5 10 (0, [], []) =
    rbind (dispatch sys sample_proc 3 sample_args 5 0 10 ws ss (tr0 @ evs @ [EReadable 5]))
      (\<lambda>(run, ss, tr). Inr (run, 0, ss, tr)) \<and> P ss evs"
proof -
  obtain ss evs where c: "handle_ip sys sample_proc 3 sample_args
      (p @ drop (length p) (map (sys_heap sys tr0) [0..<MTU * 2])) (length p) 0 10 [] tr0
      = Inr (ss, tr0 @ evs)" "P ss evs"
    using h by blast
  have "check_tun sys sample_proc 3 sample_args EPOLLIN 0 10 [] [EClock, EWait 100, EReadable 5]
    = Inr (0, ss, tr0 @ evs)"
    using c(1) assms(3) by (simp add: check_tun_def has_event_def EPOLLIN_def EPOLLERR_def recv_buffer_def Let_def
        sys_def tr0_def)
  then have "tun_loop sys sample_proc 3 sample_args 5 EPOLLIN 0 10 [] [EClock, EWait 100]
    = Some (Inr (False, ss, tr0 @ evs @ [EReadable 5]))"
    by (simp add: tun_loop.simps sys_def tr0_def)
  then show ?thesis
    using c(2) by (intro exI [of _ ss] exI [of _ evs])
      (simp add: event_turn_def sys_def packet_turn_start count_sessions_def returned_def tr0_def)
qed

lemma parse_one_packet: "parse_udp (sample_datagram @ junk) 31 20 = Inr (sample_udp_input\<lparr>ui_data := [1, 2, 3] @ junk\<rparr>)"
  by (simp add: parse_udp_def sample_datagram_def sample_udp_input_def load_udphdr_def load_iphdr_def
      decode_iphdr_def Let_def rd_def) (simp add: decode_udphdr_def ld16_def)

lemma handle_one_packet: "\<exists>c. handle_udp (one_packet_sys ws) (sample_datagram @ junk) 31 20 uid [] tr = Inr (1, [UDP c],
    tr @ [ETime, ESocket PF_INET 2 17, EProtect (socket c), EEpollAdd (socket c) (EPOLLIN OR EPOLLERR), ETime, 
      ESendto (socket c) [1, 2, 3] (Addr4 [8, 8, 8, 8] 0x5000)]) \<and> 0 \<le> socket c"
  by (simp add: handle_udp_def parse_one_packet)
   (simp add: udp_new_session_def open_udp_socket_def udp_broadcast_def udp_forward_def udp_send_def sample_udp_input_def Let_def ntohs_def ip4_def)

lemma ip_one_packet: "\<exists>c evs. handle_ip (one_packet_sys ws) sample_proc 3 sample_args (sample_datagram @ junk) 31 0 10 [] tr =
   Inr ([UDP c], tr @ evs) \<and> opens evs = [socket c] \<and> closes evs = [] \<and> 0 \<le> socket c"
proof -
  have "parse_ip 3 (sample_datagram @ junk) 31 = Inr (Some \<lparr>pi_version = 4, pi_protocol = 17, pi_saddr = [10,1,10,1], pi_daddr = [8,8,8,8], pi_off = 20\<rparr>)"
    by (subst parse_ip4_eq) (simp_all add: sample_datagram_def be16_at_def ip4_off_def)
  moreover have "has_udp_session sample_args (sample_datagram @ junk) 20 [] = Inr False"
    by (simp add: has_udp_session_def sample_datagram_def parse_udp_def load_udphdr_def load_iphdr_def Let_def sample_args_def decode_udphdr_def ld16_def ntohs_def)
  moreover have "ip_ports 17 (drop 20 (sample_datagram @ junk)) = Inr (0x3412, 80, False)"
    by (simp add: ip_ports_def protocols sample_datagram_def load_udphdr_def decode_udphdr_def ld16_def ntohs_def)
  moreover obtain c where "handle_udp (one_packet_sys ws) (sample_datagram @ junk) 31 20
      (get_uid sample_proc 4 17 0x3412 [8, 8, 8, 8] 80) [] tr = Inr (1, [UDP c],
    tr @ [ETime, ESocket PF_INET 2 17, EProtect (socket c), EEpollAdd (socket c) (EPOLLIN OR EPOLLERR), ETime,
      ESendto (socket c) [1, 2, 3] (Addr4 [8, 8, 8, 8] 0x5000)])" "0 \<le> socket c"
    using handle_one_packet by blast
  ultimately show ?thesis
    by (simp add: handle_ip_def ip_min_payload_def ip_opens_def ip_dispatch_def protocols)
qed

lemma one_packet_turn: "\<exists>c tr. event_turn (one_packet_sys ((WTun, EPOLLIN) # ws)) sample_proc 3 sample_args 5 10 (0, [], []) =
    rbind (dispatch (one_packet_sys ((WTun, EPOLLIN) # ws)) sample_proc 3 sample_args 5 0 10 ws [UDP c] tr)
      (\<lambda>(run, ss, tr). Inr (run, 0, ss, tr)) \<and> opens tr = [socket c]"
proof -
  have s: "sample_datagram \<noteq> []" "length sample_datagram = 31" by (simp_all add: sample_datagram_def)
  have "\<exists>ss evs. handle_ip (one_packet_sys ((WTun, EPOLLIN) # ws)) sample_proc 3 sample_args (sample_datagram @ junk)
      (length sample_datagram) 0 10 [] [EClock, EWait 100, EReadable 5, ETunRead MTU]
      = Inr (ss, [EClock, EWait 100, EReadable 5, ETunRead MTU] @ evs) \<and> (\<exists>c. ss = [UDP c] \<and> opens evs = [socket c])" for junk
    unfolding s(2) using ip_one_packet [of "(WTun, EPOLLIN) # ws" junk] by blast
  from packet_turn [OF s(1) this] obtain c evs where "opens evs = [socket c]"
    "event_turn (one_packet_sys ((WTun, EPOLLIN) # ws)) sample_proc 3 sample_args 5 10 (0, [], []) =
      rbind (dispatch (one_packet_sys ((WTun, EPOLLIN) # ws)) sample_proc 3 sample_args 5 0 10 ws [UDP c]
          ([EClock, EWait 100, EReadable 5, ETunRead MTU] @ evs @ [EReadable 5]))
        (\<lambda>(run, ss, tr). Inr (run, 0, ss, tr))"
    by blast
  then show ?thesis
    by (intro exI [of _ c] exI [of _ "[EClock, EWait 100, EReadable 5, ETunRead MTU] @ evs @ [EReadable 5]"]) simp
qed

text \<open>A segment of no session: it is answered with a reset, which the turn writes.\<close>

lemma stray_turn: "\<exists>b tr. event_turn (packet_sys (sample_packet4 0x10) [(WTun, EPOLLIN)]) sample_proc 3 sample_args 5 10 (0, [], []) =
    Inr (True, 0, [], tr) \<and> ETunWrite b \<in> set tr"
proof -
  let ?p = "sample_packet4 0x10" and ?sys = "packet_sys (sample_packet4 0x10) [(WTun, EPOLLIN)]"
    and ?tr = "[EClock, EWait 100, EReadable 5, ETunRead MTU]"
  have s: "?p \<noteq> []" "length ?p = 40" by (simp_all add: sample_packet4_def)
  have "\<exists>ss evs. handle_ip ?sys sample_proc 3 sample_args (?p @ junk) (length ?p) 0 10 [] ?tr = Inr (ss, ?tr @ evs)
      \<and> (ss = [] \<and> (\<exists>b. ETunWrite b \<in> set evs))" for junk
  proof -
    have i: "parse_ip 3 (?p @ junk) 40 = Inr (Some \<lparr>pi_version = 4, pi_protocol = 6, pi_saddr = [10,0,0,2], pi_daddr = [1,2,3,4], pi_off = 20\<rparr>)"
      by (subst parse_ip4_eq) (simp_all add: sample_packet4_def be16_at_def ip4_off_def)
    have ports: "ip_ports 6 (drop 20 ?p @ junk) = Inr (12345, 8080, False)"
      by (simp add: ip_ports_def protocols sample_packet4_def load_tcphdr_def decode_tcphdr_def ld16_def ntohs_def bit_numeral_rec)
    let ?i = "(sample_input 4 [10, 0, 0, 2] [1, 2, 3, 4] 0x10)\<lparr>ti_options := junk, ti_data := junk\<rparr>"
    have p: "parse_tcp (?p @ junk) 40 20 = Inr ?i"
      by (simp add: parse_tcp_def sample_packet4_def sample_input_def load_tcphdr_def load_iphdr_def
          decode_iphdr_def Let_def rd_def) (simp add: decode_tcphdr_def)
    have tls: "parse_tls_header (ti_data ?i) (unat (ti_datalen ?i)) [] = Inr []"
      by (simp add: sample_input_def parse_tls_header_def TLS_HEADER_LEN_def)
    have "\<exists>b. handle_tcp ?sys sample_args (?p @ junk) 40 20 (- 1) [] ?tr = Inr ([], ?tr @ [ETunWrite b])"
      using stray_packet_is_reset [OF p _ tls, of "[]" sample_args ?sys "-1" ?tr]
      by (auto simp: sample_input_flags bit_numeral_rec sample_args_ok)
    then show ?thesis
      unfolding s(2) by (auto simp: s(2) handle_ip_def i ports ip_min_payload_def ip_opens_def ip_dispatch_def protocols)
  qed
  from packet_turn [OF s(1) this] show ?thesis by auto
qed

theorem event_loop_inv_witness:
  "\<exists>c tr. (loop_step (one_packet_sys [(WTun, EPOLLIN)]) sample_proc 3 sample_args 5 10)\<^sup>*\<^sup>*
      (0, init, []) (0, [UDP c], tr) \<and> sessions_inv [UDP c] \<and> opens tr \<noteq> []"
proof -
  obtain c tr where t: "event_turn (one_packet_sys [(WTun, EPOLLIN)]) sample_proc 3 sample_args 5 10 (0, init, [])
      = Inr (True, 0, [UDP c], tr)" "opens tr = [socket c]"
    using one_packet_turn [of "[]"] by (auto simp: init_def)
  then have r: "(loop_step (one_packet_sys [(WTun, EPOLLIN)]) sample_proc 3 sample_args 5 10)\<^sup>*\<^sup>*
      (0, init, []) (0, [UDP c], tr)"
    by (blast intro: loop_step.turn)
  have "sessions_inv [UDP c]" using event_loop_inv [OF r] packet_sys_ok(1) packet_sys_ok(2) [of "[(WTun, EPOLLIN)]" sample_datagram] by simp
  then show ?thesis using r t(2) by (intro exI [of _ c] exI [of _ tr]) simp
qed


theorem run_leaks_no_descriptor_witness:
  "\<exists>ss tr ss' tr'. handle_events (one_packet_sys [(WTun, EPOLLIN), (WPipe, EPOLLIN)]) sample_proc 3 sample_args 5 25 True init []
      = Inr (ss, tr) \<and> clear ss tr = (ss', tr') \<and> opens tr \<noteq> [] \<and> mset (opens tr') = mset (closes tr')"
proof -
  let ?sys = "one_packet_sys [(WTun, EPOLLIN), (WPipe, EPOLLIN)]"
  obtain c tr where t: "event_turn ?sys sample_proc 3 sample_args 5 10 (0, [], []) = Inr (False, 0, [UDP c], tr)"
    "opens tr = [socket c]"
    using one_packet_turn [of "[(WPipe, EPOLLIN)]"] by fastforce
  then have "handle_events ?sys sample_proc 3 sample_args 5 25 True init [] = Inr ([UDP c], tr)"
    by (simp add: handle_events_def init_def events_loop.simps returned_def max_sessions_def)
  moreover obtain ss' tr' where "clear [UDP c] tr = (ss', tr')" by fastforce
  ultimately show ?thesis
    using run_leaks_no_descriptor [of ?sys sample_proc 3 sample_args 5 25 True "[UDP c]" tr ss' tr']
      packet_sys_ok(1) packet_sys_ok(2) [of "[(WTun, EPOLLIN), (WPipe, EPOLLIN)]" sample_datagram] t(2) by auto
qed

theorem loop_sleeps_to_next_deadline_witness:
  "0 < fst (loop_turn calm_sys 10 (- 1000) [UDP sample_udp] [])"
proof -
  obtain t l ss tr where l: "loop_turn calm_sys 10 (- 1000) [UDP sample_udp] [] = (t, l, ss, tr)" by (rule prod_cases4)
  have "sessions_inv [UDP sample_udp]"
    using sample_udp_sessions_inv
    by (simp add: sessions_inv_def tcp_sessions_inv_def icmp_sessions_inv_def tcp_key_def icmp_key_def)
  then show ?thesis using loop_sleeps_to_next_deadline [OF l] by (simp add: l clock_mono_def)
qed

theorem check_allowed_stops_all_witness:
  "\<exists>ss b. check_allowed calm_sys [UDP sample_udp, TCP (sample_session TCP_ESTABLISHED)] [] = (ss, [ETunWrite b])
    \<and> count_sessions ss = 0"
proof -
  obtain ss tr where c: "check_allowed calm_sys [UDP sample_udp, TCP (sample_session TCP_ESTABLISHED)] [] = (ss, tr)"
    by fastforce
  then show ?thesis using check_allowed_stops_all [OF c]
    by (auto simp: session_active_def length_Suc_conv)
qed

end
