(* ===== verification/Service.thy ===== *)
theory Service
  imports Event_Loop
begin

text \<open>
  The native side of the VPN service (\<open>tun2http.c\<close>): \<open>jni_init\<close>, \<open>jni_start\<close>, \<open>jni_stop\<close>, \<open>jni_done\<close>,
  called by \<open>TunnelService\<close> from the main thread, and the thread of \<open>handle_events\<close> beside it. The two
  share the session list, the pipe and \<open>thread_id\<close>; a state machine interleaves their steps.
\<close>

section \<open>The shared state\<close>

text \<open>
  Where the thread is; \<open>NoThread\<close> is \<open>thread_id = 0\<close> and \<open>Leaving\<close> the code of \<open>handle_events\<close> after the
  loop, up to \<open>thread_id = 0\<close>. A thread in the loop keeps \<open>maxsessions\<close> and \<open>last_check\<close>.
\<close>

datatype worker = NoThread | Created arguments int | Looping arguments int int int | Leaving

text \<open>The main thread waits in \<open>pthread_join\<close>, or it is not in a native call.\<close>

datatype caller = Free | Joining

text \<open>\<open>vpn\<close>: the field of \<open>TunnelService\<close>, the tun descriptor; \<open>created\<close>: between \<open>onCreate\<close> and \<open>onDestroy\<close>.\<close>

record service =
  ng_session :: "session list"
  svc_trace :: trace
  thread :: worker
  caller :: caller
  vpn :: "int option"
  created :: bool

definition first_service :: service where
  "first_service = \<lparr>ng_session = [], svc_trace = [], thread = NoThread, caller = Free, vpn = None, created = False\<rparr>"

text \<open>\<open>Freed_in_use\<close>: the list is freed while the thread may work on it.\<close>

datatype svc_fault = Freed_in_use | Memory fault

type_synonym svc_result = "svc_fault + service"

text \<open>The bytes in the pipe.\<close>

fun pipe_bytes :: "nat \<Rightarrow> trace \<Rightarrow> nat" where
  "pipe_bytes n [] = n"
| "pipe_bytes n (e # es) = pipe_bytes (case e of
      EPipe \<Rightarrow> 0 | EPipeWrite \<Rightarrow> n + 1 | EPipeRead \<Rightarrow> n - 1 | _ \<Rightarrow> n) es"

section \<open>The native calls\<close>

text \<open>
  \<open>JNI_OnLoad\<close> raises the soft limit of descriptors to the hard one, on which \<open>max_sessions\<close> depends.
  \<open>rlim\<close>: what \<open>getrlimit\<close> gives (\<open>None\<close> if it fails); the result of the call and the limit left.
\<close>

definition JNI_VERSION_1_6 :: int where "JNI_VERSION_1_6 = 0x00010006"

definition jni_on_load :: "bool \<Rightarrow> (int \<times> int) option \<Rightarrow> bool \<Rightarrow> int \<times> (int \<times> int) option" where
  "jni_on_load env_ok rlim set_ok =
     (if env_ok
      then (JNI_VERSION_1_6, map_option (\<lambda>(soft, hard). (if set_ok then hard else soft, hard)) rlim)
      else (-1, rlim))"

lemma jni_on_load_max_sessions:
  "soft \<le> hard \<Longrightarrow> jni_on_load env_ok (Some (soft, hard)) set_ok = (r, Some (soft', hard')) \<Longrightarrow>
   max_sessions soft \<le> max_sessions soft' \<and> (env_ok \<and> set_ok \<and> 2500 \<le> hard \<longrightarrow> max_sessions soft' = 1000)"
  by (auto simp: jni_on_load_def max_sessions_def split: if_splits intro: zdiv_mono1)

definition jni_init :: "service \<Rightarrow> service" where
  "jni_init s = s\<lparr>ng_session := init, svc_trace := svc_trace s @ [EPipe], created := True\<rparr>"

text \<open>\<open>thread_id && pthread_kill(thread_id, 0) == 0\<close>\<close>

definition alive :: "service \<Rightarrow> bool" where
  "alive s \<longleftrightarrow> thread s \<noteq> NoThread"

text \<open>
  \<open>strcpy(args->proxyIp, proxy_ip)\<close> goes into an array of 128 bytes; \<open>ok\<close>: \<open>pthread_create\<close> succeeds.
  The Java method sets \<open>vpn\<close> before it calls.
\<close>

definition jni_start :: "arguments \<Rightarrow> int \<Rightarrow> bool \<Rightarrow> service \<Rightarrow> svc_result" where
  "jni_start args tun ok s =
     (let s = s\<lparr>vpn := Some tun\<rparr>
      in if alive s then Inr s
         else if length (proxyIp args) > 128 then Inl (Memory OobWrite)
         else Inr (if ok then s\<lparr>thread := Created args tun\<rparr> else s))"

text \<open>\<open>clear\<close>, called on the main thread; behind the loop the thread does not touch the list any more.\<close>

definition in_use :: "service \<Rightarrow> bool" where
  "in_use s \<longleftrightarrow> (case thread s of NoThread \<Rightarrow> False | Leaving \<Rightarrow> False | _ \<Rightarrow> True)"

definition svc_clear :: "service \<Rightarrow> svc_result" where
  "svc_clear s =
     (if in_use s then Inl Freed_in_use
      else let (ss, tr) = clear (ng_session s) (svc_trace s) in Inr (s\<lparr>ng_session := ss, svc_trace := tr\<rparr>))"

text \<open>
  \<open>jni_stop\<close> up to \<open>pthread_join\<close>; \<open>sent\<close>: the byte could be written to the pipe. After a write that
  failed the call goes on to \<open>clear\<close> without a join. When the call returns, \<open>TunnelService\<close> forgets the vpn.
\<close>

definition jni_stop :: "bool \<Rightarrow> service \<Rightarrow> svc_result" where
  "jni_stop sent s =
     (if alive s then
        if sent then Inr (s\<lparr>svc_trace := svc_trace s @ [EPipeWrite], caller := Joining\<rparr>)
        else map_sum id (\<lambda>s. s\<lparr>vpn := None\<rparr>) (svc_clear s)
      else Inr (s\<lparr>vpn := None\<rparr>))"

text \<open>The rest of \<open>jni_stop\<close>, once the thread has ended.\<close>

definition jni_stop_joined :: "service \<Rightarrow> svc_result" where
  "jni_stop_joined s = map_sum id (\<lambda>s. s\<lparr>caller := Free, vpn := None\<rparr>) (svc_clear s)"

definition jni_done :: "service \<Rightarrow> svc_result" where
  "jni_done s = map_sum id (\<lambda>s. s\<lparr>created := False\<rparr>) (svc_clear s)"

section \<open>The thread\<close>

text \<open>\<open>handle_events\<close>, step by step: up to the loop, an iteration, and the end.\<close>

definition worker_begin :: "sys \<Rightarrow> int \<Rightarrow> bool \<Rightarrow> service \<Rightarrow> service" where
  "worker_begin sys rlim_cur opened s = (case thread s of
      Created args tun \<Rightarrow>
        let (ss, tr) = check_allowed sys (ng_session s) (svc_trace s)
        in s\<lparr>ng_session := ss, svc_trace := tr,
             thread := if opened then Looping args tun (max_sessions rlim_cur) 0 else Leaving\<rparr>
    | _ \<Rightarrow> s)"

definition worker_turn :: "sys \<Rightarrow> proc \<Rightarrow> int \<Rightarrow> service \<Rightarrow> svc_result" where
  "worker_turn sys proc loglevel s = (case thread s of
      Looping args tun m last_check \<Rightarrow>
        (case event_turn sys proc loglevel args tun m (last_check, ng_session s, svc_trace s) of
           Inl e \<Rightarrow> Inl (Memory e)
         | Inr (run, last_check, ss, tr) \<Rightarrow>
             Inr (s\<lparr>ng_session := ss, svc_trace := tr,
               thread := if run then Looping args tun m last_check else Leaving\<rparr>))
    | _ \<Rightarrow> Inr s)"

definition worker_end :: "service \<Rightarrow> service" where
  "worker_end s = s\<lparr>thread := NoThread\<rparr>"

section \<open>The machine\<close>

text \<open>
  The steps, with the guards of \<open>TunnelService\<close>: \<open>start\<close> returns at once when there is a vpn, \<open>stop\<close>
  when there is none, and \<open>onDestroy\<close> stops first. The main thread does nothing else while it joins.
\<close>

inductive svc_step :: "sys \<Rightarrow> proc \<Rightarrow> int \<Rightarrow> service \<Rightarrow> svc_result \<Rightarrow> bool" for sys proc loglevel where
  on_create: "\<not> created s \<Longrightarrow> svc_step sys proc loglevel s (Inr (jni_init s))"
| start: "created s \<Longrightarrow> caller s = Free \<Longrightarrow> vpn s = None \<Longrightarrow>
    svc_step sys proc loglevel s (jni_start args tun ok s)"
| stop: "created s \<Longrightarrow> caller s = Free \<Longrightarrow> vpn s \<noteq> None \<Longrightarrow> svc_step sys proc loglevel s (jni_stop sent s)"
| join: "caller s = Joining \<Longrightarrow> thread s = NoThread \<Longrightarrow> svc_step sys proc loglevel s (jni_stop_joined s)"
| on_destroy: "created s \<Longrightarrow> caller s = Free \<Longrightarrow> vpn s = None \<Longrightarrow> svc_step sys proc loglevel s (jni_done s)"
| begins: "thread s = Created args tun \<Longrightarrow> svc_step sys proc loglevel s (Inr (worker_begin sys rlim_cur opened s))"
| turn: "thread s = Looping args tun m last_check \<Longrightarrow>
    svc_step sys proc loglevel s (worker_turn sys proc loglevel s)"
| ends: "thread s = Leaving \<Longrightarrow> svc_step sys proc loglevel s (Inr (worker_end s))"

inductive svc_reach :: "sys \<Rightarrow> proc \<Rightarrow> int \<Rightarrow> service \<Rightarrow> bool" for sys proc loglevel where
  first: "svc_reach sys proc loglevel first_service"
| further: "svc_reach sys proc loglevel s \<Longrightarrow> svc_step sys proc loglevel s (Inr s') \<Longrightarrow> svc_reach sys proc loglevel s'"

section \<open>The invariant\<close>

definition svc_inv :: "service \<Rightarrow> bool" where
  "svc_inv s \<longleftrightarrow> keeps_list ([], []) (ng_session s, svc_trace s)
     \<and> (in_use s \<longrightarrow> created s \<and> vpn s \<noteq> None)
     \<and> (caller s = Joining \<longrightarrow> created s \<and> vpn s \<noteq> None)
     \<and> (\<not> created s \<longrightarrow> ng_session s = [])"

lemma keeps_list_upto: "keeps_list c (ss, tr) \<Longrightarrow> plain tr tr' \<Longrightarrow> keeps_list c (ss, tr')"
  using keeps_list_plain keeps_list_trans by blast

lemma clear_keeps: "clear ss tr = (ss', tr') \<Longrightarrow> ss' = [] \<and> keeps_list (ss, tr) (ss', tr')"
  using clear_closes [of ss tr ss' tr'] by (auto simp: keeps_list_def)

lemma svc_clear_inv:
  assumes "svc_inv s" "svc_clear s = Inr s'"
  shows "\<not> in_use s \<and> (\<exists>tr. s' = s\<lparr>ng_session := [], svc_trace := tr\<rparr> \<and> keeps_list ([], []) ([], tr))"
proof -
  obtain ss tr where c: "clear (ng_session s) (svc_trace s) = (ss, tr)" by fastforce
  then have "\<not> in_use s" "s' = s\<lparr>ng_session := ss, svc_trace := tr\<rparr>"
    using assms(2) by (auto simp: svc_clear_def split: if_splits)
  moreover have "keeps_list ([], []) (ng_session s, svc_trace s)" using assms(1) by (simp add: svc_inv_def)
  then have "keeps_list ([], []) (ss, tr)" by (rule keeps_list_trans) (use clear_keeps [OF c] in blast)
  ultimately show ?thesis using clear_keeps [OF c] by auto
qed

lemma map_sum_eq_Inr: "map_sum f g x = Inr y \<longleftrightarrow> (\<exists>z. x = Inr z \<and> g z = y)"
  by (cases x) auto

lemma jni_start_inv:
  assumes "svc_inv s" "created s" "jni_start args tun ok s = Inr s'"
  shows "svc_inv s'"
  using assms by (auto simp: jni_start_def svc_inv_def in_use_def Let_def split: if_splits)

lemma jni_stop_inv:
  assumes "svc_inv s" "created s" "vpn s \<noteq> None" "caller s = Free" "jni_stop sent s = Inr s'"
  shows "svc_inv s'"
proof (cases "alive s \<and> \<not> sent")
  case True
  then obtain z where z: "svc_clear s = Inr z" "s' = z\<lparr>vpn := None\<rparr>"
    using assms(5) by (auto simp: jni_stop_def map_sum_eq_Inr)
  then show ?thesis
    using svc_clear_inv [OF assms(1) z(1)] assms(2,4) by (auto simp: svc_inv_def in_use_def)
next
  case False
  then show ?thesis
    using assms keeps_list_upto [of "([], [])" "ng_session s" "svc_trace s" "svc_trace s @ [EPipeWrite]"]
    by (auto simp: jni_stop_def svc_inv_def in_use_def alive_def split: if_splits)
qed

lemma jni_stop_joined_inv:
  assumes "svc_inv s" "thread s = NoThread" "jni_stop_joined s = Inr s'"
  shows "svc_inv s'"
proof -
  obtain z where z: "svc_clear s = Inr z" "s' = z\<lparr>caller := Free, vpn := None\<rparr>"
    using assms(3) by (auto simp: jni_stop_joined_def map_sum_eq_Inr)
  then show ?thesis
    using svc_clear_inv [OF assms(1) z(1)] assms(2) by (auto simp: svc_inv_def in_use_def)
qed

lemma jni_done_inv:
  assumes "svc_inv s" "caller s = Free" "jni_done s = Inr s'"
  shows "svc_inv s'"
proof -
  obtain z where z: "svc_clear s = Inr z" "s' = z\<lparr>created := False\<rparr>"
    using assms(3) by (auto simp: jni_done_def map_sum_eq_Inr)
  then show ?thesis
    using svc_clear_inv [OF assms(1) z(1)] assms(2) by (auto simp: svc_inv_def in_use_def)
qed

lemma worker_begin_inv:
  assumes "svc_inv s" "thread s = Created args tun"
  shows "svc_inv (worker_begin sys rlim_cur opened s)"
proof -
  obtain ss tr where a: "check_allowed sys (ng_session s) (svc_trace s) = (ss, tr)" by fastforce
  have "keeps_list (ng_session s, svc_trace s) (ss, tr)" by (rule keeps_list_steps [OF check_allowed_steps [OF a]])
  then show ?thesis
    using assms keeps_list_trans by (auto simp: worker_begin_def a svc_inv_def in_use_def)
qed

lemma worker_turn_inv:
  assumes "svc_inv s" "thread s = Looping args tun m l" "worker_turn sys proc loglevel s = Inr s'"
    and "send_closed sys" "wait_ok sys"
  shows "svc_inv s'"
proof -
  obtain run l1 ss tr where t: "event_turn sys proc loglevel args tun m (l, ng_session s, svc_trace s) = Inr (run, l1, ss, tr)"
    and s': "s' = s\<lparr>ng_session := ss, svc_trace := tr, thread := if run then Looping args tun m l1 else Leaving\<rparr>"
    using assms(2,3) by (auto simp: worker_turn_def split: sum.splits)
  from event_turn_keeps [OF t assms(4,5)] show ?thesis
    using assms(1,2) keeps_list_trans by (auto simp: s' svc_inv_def in_use_def)
qed

lemma svc_step_inv:
  assumes "svc_step sys proc loglevel s (Inr s')" "svc_inv s" "send_closed sys" "wait_ok sys"
  shows "svc_inv s'"
  using assms(1)
proof (cases rule: svc_step.cases)
  case on_create
  then show ?thesis
    using assms(2) keeps_list_upto [of "([], [])" "[]" "svc_trace s" "svc_trace s @ [EPipe]"]
    by (auto simp: jni_init_def svc_inv_def in_use_def init_def)
next
  case (start args tun ok)
  then show ?thesis using jni_start_inv [OF assms(2)] by metis
next
  case (stop sent)
  then show ?thesis using jni_stop_inv [OF assms(2)] by metis
next
  case join
  then show ?thesis using jni_stop_joined_inv [OF assms(2)] by metis
next
  case on_destroy
  then show ?thesis using jni_done_inv [OF assms(2)] by metis
next
  case (begins args tun rlim_cur opened)
  then show ?thesis using worker_begin_inv [OF assms(2)] by simp
next
  case (turn args tun m l)
  then show ?thesis using worker_turn_inv [OF assms(2) turn(2) _ assms(3,4)] by metis
next
  case ends
  then show ?thesis using assms(2) by (auto simp: worker_end_def svc_inv_def in_use_def)
qed

lemma svc_reach_inv: "svc_reach sys proc loglevel s \<Longrightarrow> send_closed sys \<Longrightarrow> wait_ok sys \<Longrightarrow> svc_inv s"
proof (induction rule: svc_reach.induct)
  case first
  then show ?case by (simp add: svc_inv_def first_service_def in_use_def)
next
  case (further s s')
  then show ?case using svc_step_inv by blast
qed

section \<open>The properties\<close>

text \<open>
  C4: When the service has been destroyed, after any number of starts and stops and whatever the thread
  did in between, also when it ended by itself, no session is left and every descriptor that was
  registered has been closed exactly once.
\<close>

theorem destroyed_service_leaks_nothing:
  assumes "svc_reach sys proc loglevel s" "send_closed sys" "wait_ok sys" "\<not> created s"
  shows "ng_session s = [] \<and> mset (opens (svc_trace s)) = mset (closes (svc_trace s)) \<and> \<not> in_use s"
  using svc_reach_inv [OF assms(1-3)] assms(4)
  by (auto simp: svc_inv_def keeps_list_def balance_def)


text \<open>
  C7: A stop is answered: once every wait reports the pipe, the thread leaves the loop with the turn it is
  in (unless that turn itself hangs or faults), so that the join returns.
\<close>

theorem stop_byte_ends_thread:
  assumes "sessions_inv ss" "\<And>evs t. \<exists>ws e. sys_epoll_wait sys (tr @ evs) t = Inr ws \<and> (WPipe, e) \<in> set ws"
  shows "events_loop sys proc loglevel args tun m (l, ss, tr) = Some (
    case event_turn sys proc loglevel args tun m (l, ss, tr) of Inl e \<Rightarrow> Inl e | Inr (run, c) \<Rightarrow> Inr c)"
proof -
  have d: "run = False" if "dispatch sys proc loglevel args tun n m ws ss tr = Inr (run, ss', tr')" "(WPipe, e) \<in> set ws"
    for n ws ss tr run ss' tr' e
    using that
    by (induction ws arbitrary: ss tr) (auto simp: rbind_eq_Inr split: wakeup.splits option.splits if_splits)
  have "\<not> run" if t: "event_turn sys proc loglevel args tun m (l, ss, tr) = Inr (run, c)" for run c
  proof -
    obtain t l' ss1 tr1 where l: "loop_turn sys m l ss tr = (t, l', ss1, tr1)" by (rule prod_cases4)
    obtain evs where "tr1 = tr @ evs" using loop_turn_keeps [OF l] assms(1) by (auto simp: keeps_list_def balance_def)
    then obtain ws e where w: "sys_epoll_wait sys tr1 t = Inr ws" "(WPipe, e) \<in> set ws" using assms(2) by blast
    then obtain ss' tr' where "dispatch sys proc loglevel args tun (count_sessions ss) m ws ss1 (tr1 @ [EWait t]) = Inr (run, ss', tr')"
      using t by (auto simp: event_turn_def l rbind_eq_Inr)
    from d [OF this w(2)] show ?thesis by simp
  qed
  then show ?thesis
    by (subst events_loop.simps) (fastforce split: sum.splits)
qed

section \<open>The thread runs handle_events\<close>

abbreviation svc_steps :: "sys \<Rightarrow> proc \<Rightarrow> int \<Rightarrow> service \<Rightarrow> service \<Rightarrow> bool" where
  "svc_steps sys proc loglevel \<equiv> (\<lambda>s s'. svc_step sys proc loglevel s (Inr s'))\<^sup>*\<^sup>*"

text \<open>An iteration, as a step of the machine.\<close>

lemma looping_step:
  assumes "event_turn sys proc loglevel args tun m (l, ss, tr) = Inr (run, l1, ss1, tr1)"
  shows "svc_steps sys proc loglevel (s\<lparr>ng_session := ss, svc_trace := tr, thread := Looping args tun m l\<rparr>)
    (s\<lparr>ng_session := ss1, svc_trace := tr1, thread := if run then Looping args tun m l1 else Leaving\<rparr>)"
  using svc_step.turn [of "s\<lparr>ng_session := ss, svc_trace := tr, thread := Looping args tun m l\<rparr>" args tun m l sys proc loglevel]
  by (auto simp: worker_turn_def assms intro!: r_into_rtranclp)

lemma events_loop_steps:
  assumes "events_loop sys proc loglevel args tun m c = Some r" "c = (l, ss, tr)" "r = Inr (l', ss', tr')"
  shows "svc_steps sys proc loglevel (s\<lparr>ng_session := ss, svc_trace := tr, thread := Looping args tun m l\<rparr>)
    (s\<lparr>ng_session := ss', svc_trace := tr', thread := Leaving\<rparr>)"
proof -
  let ?at = "\<lambda>args tun m l ss tr. s\<lparr>ng_session := ss, svc_trace := tr, thread := Looping args tun m l\<rparr>"
  have "\<forall>l ss tr l' ss' tr'. c = (l, ss, tr) \<longrightarrow> r = Inr (l', ss', tr') \<longrightarrow>
      svc_steps sys proc loglevel (?at args tun m l ss tr) (s\<lparr>ng_session := ss', svc_trace := tr', thread := Leaving\<rparr>)"
  proof (rule events_loop.raw_induct [of "\<lambda>sys proc loglevel args tun m c r. \<forall>l ss tr l' ss' tr'.
      c = (l, ss, tr) \<longrightarrow> r = Inr (l', ss', tr') \<longrightarrow>
      svc_steps sys proc loglevel (?at args tun m l ss tr) (s\<lparr>ng_session := ss', svc_trace := tr', thread := Leaving\<rparr>)",
      OF _ assms(1)], goal_cases)
    case (1 loop sys proc loglevel args tun m c r)
    show ?case
    proof (intro allI impI)
      fix l ss tr l' ss' tr' assume c: "c = (l, ss, tr)" and r: "r = Inr (l', ss', tr')"
      obtain run l1 ss1 tr1 where t: "event_turn sys proc loglevel args tun m (l, ss, tr) = Inr (run, l1, ss1, tr1)"
        using 1(2) r by (auto simp: c split: sum.splits)
      note step = looping_step [OF t, of s]
      show "svc_steps sys proc loglevel (?at args tun m l ss tr) (s\<lparr>ng_session := ss', svc_trace := tr', thread := Leaving\<rparr>)"
      proof (cases run)
        case True
        then have "loop sys proc loglevel args tun m (l1, ss1, tr1) = Some r" using 1(2) by (simp add: c t)
        from 1(1) [rule_format, OF this refl r] step True show ?thesis by (simp add: rtranclp_trans)
      next
        case False
        then show ?thesis using 1(2) step r by (simp add: c t)
      qed
    qed
  qed
  with assms(2,3) show ?thesis by blast
qed


section \<open>Runs of the machine\<close>

text \<open>Created, and started with a thread that has not begun yet.\<close>

definition started_service :: service where
  "started_service = first_service\<lparr>svc_trace := [EPipe], created := True, vpn := Some 5, thread := Created sample_args 5\<rparr>"

lemma reach_started: "svc_reach sys proc loglevel started_service"
proof -
  have "svc_reach sys proc loglevel (jni_init first_service)"
    by (rule svc_reach.further [OF svc_reach.first svc_step.on_create]) (simp add: first_service_def)
  moreover have "jni_start sample_args 5 True (jni_init first_service) = Inr started_service"
    by (simp add: jni_start_def jni_init_def started_service_def first_service_def alive_def init_def
        sample_args_def cstr_def)
  ultimately show ?thesis
    using svc_step.start [of "jni_init first_service" sys proc loglevel sample_args 5 True]
    by (auto simp: jni_init_def first_service_def intro: svc_reach.further)
qed

text \<open>A thread that cannot open its epoll descriptor ends by itself; a stop comes before it has.\<close>

definition stopped_service :: service where
  "stopped_service = first_service\<lparr>svc_trace := [EPipe, EPipeWrite], created := True\<rparr>"

lemma reach_stopped: "svc_reach sys proc loglevel stopped_service"
proof -
  let ?s1 = "started_service\<lparr>thread := Leaving\<rparr>" and ?s2 = "started_service\<lparr>thread := Leaving,
    svc_trace := [EPipe, EPipeWrite], caller := Joining\<rparr>"
  have "worker_begin sys 0 False started_service = ?s1"
    by (simp add: worker_begin_def started_service_def first_service_def)
  then have 1: "svc_reach sys proc loglevel ?s1"
    using svc_step.begins [of started_service sample_args 5 sys proc loglevel 0 False] reach_started
    by (auto simp: started_service_def intro: svc_reach.further)
  have "jni_stop True ?s1 = Inr ?s2"
    by (simp add: jni_stop_def alive_def started_service_def first_service_def)
  then have 2: "svc_reach sys proc loglevel ?s2"
    using svc_step.stop [of ?s1 sys proc loglevel True] 1
    by (auto simp: started_service_def first_service_def intro: svc_reach.further)
  have 3: "svc_reach sys proc loglevel (worker_end ?s2)"
    by (rule svc_reach.further [OF 2 svc_step.ends]) simp
  have "jni_stop_joined (worker_end ?s2) = Inr stopped_service"
    by (simp add: jni_stop_joined_def worker_end_def svc_clear_def in_use_def started_service_def
        first_service_def stopped_service_def)
  then show ?thesis
    using svc_step.join [of "worker_end ?s2" sys proc loglevel] 3
    by (auto simp: worker_end_def intro: svc_reach.further)
qed

text \<open>
  A stop that meets a thread which is ending by itself leaves its byte in the pipe: the service is
  stopped, no thread runs, and the next thread will find the byte and end at its first wait, while
  \<open>TunnelService\<close> takes the vpn for running. Nothing drains the pipe.
\<close>

theorem stop_may_leave_its_byte:
  "\<exists>s. svc_reach sys proc loglevel s \<and> created s \<and> vpn s = None \<and> thread s = NoThread \<and> caller s = Free
     \<and> pipe_bytes 0 (svc_trace s) = 1"
  by (rule exI [of _ stopped_service]) (simp add: reach_stopped, simp add: stopped_service_def first_service_def)

lemma calm_sys_ok: "send_closed calm_sys" "wait_ok calm_sys"
  by (auto simp: send_closed_def wait_ok_def)

theorem destroyed_service_leaks_nothing_witness:
  "\<exists>s. svc_reach calm_sys sample_proc 3 s \<and> svc_trace s \<noteq> [] \<and> \<not> created s \<and> ng_session s = []"
proof -
  let ?s = "stopped_service\<lparr>created := False\<rparr>"
  have "jni_done stopped_service = Inr ?s"
    by (simp add: jni_done_def svc_clear_def in_use_def stopped_service_def first_service_def)
  then have r: "svc_reach calm_sys sample_proc 3 ?s"
    using svc_step.on_destroy [of stopped_service calm_sys sample_proc 3] reach_stopped
    by (auto simp: stopped_service_def first_service_def intro: svc_reach.further)
  from destroyed_service_leaks_nothing [OF r calm_sys_ok] show ?thesis
    using r by (intro exI [of _ ?s]) (simp add: stopped_service_def)
qed


theorem stop_byte_ends_thread_witness:
  "events_loop calm_sys sample_proc 3 sample_args 5 10 (0, [], []) \<noteq> None"
  using stop_byte_ends_thread [of "[]" calm_sys "[]" sample_proc 3 sample_args 5 10 0] by simp


end
