(* ===== verification/Spec2Isabelle.thy ===== *)
theory Spec2Isabelle
  imports Prelude Checksum Util Headers Tls Http Http_Headers Session_Types Session_Table
    Ip_Output Tcp_States Tcp_Queue Tcp_Output Tcp_Options Tcp_Session Tcp_Socket Tcp_Handle Tcp
    Dns Udp_Output Dhcp Udp Icmp Uid Ip Effects Session Event_Loop Service
begin

text \<open>
  Nroxy is an Android VPN service that routes the TCP connections of the device's applications
  through an HTTP proxy. Its core is the C library \<open>app/src/main/cpp/tun2http\<close>, a user space TCP, UDP
  and ICMP stack between the tun device and ordinary sockets, run by one thread. This library models
  all of its C code that computes: the files \<open>session.c\<close>, \<open>ip.c\<close>, \<open>tcp.c\<close>, \<open>udp.c\<close>, \<open>icmp.c\<close>,
  \<open>dns.c\<close>, \<open>dhcp.c\<close>, \<open>tls.c\<close>, \<open>http.c\<close>, \<open>util.c\<close>, the calls of \<open>tun2http.c\<close> that start and stop
  the thread, and the types of \<open>tun2http.h\<close>.

  \<^bold>\<open>How the parts interact.\<close> \<open>handle_events\<close> (\<open>session.c\<close>) is the thread. An iteration
  (\<open>event_turn\<close>) counts the sessions and chooses their epoll events (\<open>monitor_pass\<close>), checks them for
  timeouts and removes what is finished (\<open>check_pass\<close>), waits, and dispatches what the wait reports
  (\<open>dispatch\<close>): a packet of the tun device goes through \<open>check_tun\<close> and \<open>handle_ip\<close> (\<open>ip.c\<close>) to
  \<open>handle_tcp\<close>, \<open>handle_udp\<close> or \<open>handle_icmp\<close>, which find or open a session and answer through
  \<open>write_tcp\<close>, \<open>write_udp\<close>, \<open>write_icmp\<close>; an event of a socket goes to \<open>check_tcp_socket\<close>,
  \<open>check_udp_socket\<close> or \<open>check_icmp_socket\<close>. All of them work on the list \<open>ng_session\<close>, here a
  \<open>session list\<close> that is passed along. The main thread of the Java service creates the thread
  (\<open>jni_start\<close>), stops it through a pipe (\<open>jni_stop\<close>) and frees the list behind it (\<open>clear\<close>); the record
  \<open>service\<close> is what the two threads share, and the relation \<open>svc_step\<close> interleaves their steps.

  \<^bold>\<open>Conventions.\<close> C integers keep their width as words (\<open>u16\<close>, \<open>u32\<close>); values whose overflow is out of
  reach (\<open>time_t\<close>, lengths below 2\<open>\<^sup>3\<^sup>2\<close>, descriptors) are \<open>int\<close> or \<open>nat\<close>, and \<open>size_t\<close>
  subtractions wrap (\<open>size_sub\<close>). The machine is little endian. A block of memory is a list of bytes; a
  read or write through a pointer is checked (\<open>rd\<close>, \<open>wr_bytes\<close>) and the \<open>fault\<close> it may give
  (\<open>OobRead\<close>, \<open>OobWrite\<close>) is the left side of the result. A loop with no bound is a
  \<open>partial_function (option)\<close>, its \<open>None\<close> becomes the fault \<open>Hang\<close> (\<open>returned\<close>); there is no fuel. A
  system call appends an \<open>event\<close> to the trace, and its answer is a field of the record \<open>sys\<close>, a
  function of the trace: a theorem for all \<open>sys\<close> covers every behaviour of kernel, network, clock and of
  memory that was not initialised (\<open>sys_heap\<close>).

  \<^bold>\<open>The theories.\<close>
  \<^item> \<open>Prelude\<close>: bytes, faults, checked memory, byte order. \<open>Checksum\<close>, \<open>Util\<close>: \<open>util.c\<close>; the
    checksum is the one's complement sum (locale \<open>inet_checksum\<close>, whose facts all packet theories share).
  \<^item> \<open>Headers\<close>: the IP, TCP, UDP headers as records with load and store. \<open>Ip_Output\<close>: the IP part of
    every packet the library writes, and the receiver that checks it.
  \<^item> \<open>Session_Types\<close>: \<open>struct ng_session\<close> with its three arms, system calls, the timeouts (locale
    \<open>session_timeout\<close>, interpreted for each protocol). \<open>Session_Table\<close>: the search loops as the locale
    \<open>session_table\<close>, interpreted for TCP, UDP and ICMP: a flow has at most one session.
  \<^item> \<open>Tls\<close>, \<open>Http\<close>: the server name of a client hello (\<open>tls.c\<close>), the rewriting of a request line
    (\<open>http.c\<close>). \<open>Http_Headers\<close>: the search for a header field (\<open>get_header\<close>).
  \<^item> \<open>Tcp_States\<close>, \<open>Tcp_Queue\<close>, \<open>Tcp_Output\<close>, \<open>Tcp_Options\<close>, \<open>Tcp_Session\<close>, \<open>Tcp_Socket\<close>,
    \<open>Tcp_Handle\<close>, \<open>Tcp\<close>: \<open>tcp.c\<close>, in this order: the life cycle as an order on the states, the queue
    and the windows, packets (locale \<open>tcp_writer\<close>, interpreted for each \<open>write_*\<close>), the options of a
    SYN, the periodic operations, socket events, packets from the client, and the step relation over
    all of them.
  \<^item> \<open>Dns\<close>, \<open>Dhcp\<close>, \<open>Udp_Output\<close>, \<open>Udp\<close>: \<open>dns.c\<close>, \<open>dhcp.c\<close>, \<open>udp.c\<close>. \<open>Icmp\<close>: \<open>icmp.c\<close>.
  \<^item> \<open>Uid\<close>, \<open>Ip\<close>: \<open>ip.c\<close>: the owner of a flow from the tables of \<open>/proc/net\<close>; the header checks, the
    session limit and the dispatch.
  \<^item> \<open>Session\<close>: \<open>session.c\<close>. \<open>Effects\<close>: every operation with regard to the sockets it registers
    and closes and the packets it writes. \<open>Event_Loop\<close>: what holds along the loop.
  \<^item> \<open>Service\<close>: \<open>tun2http.c\<close>, the state machine of the service and its thread.

  \<^bold>\<open>What is shown.\<close> Each operation on a session keeps the session's invariant (\<open>tcp_inv\<close>, \<open>udp_inv\<close>,
  \<open>icmp_inv\<close>), its flow and the order of its states (\<open>*_keeps\<close>); each handler keeps the invariant of the
  list (\<open>*_sessions\<close>, \<open>*_all\<close>) and the account of the descriptors and of the packets written (\<open>*_fd\<close>,
  \<open>*_balance\<close>); \<open>Event_Loop\<close> composes them: the invariants hold in every state the loop reaches, every
  packet written on the way is well formed (up to 65000 bytes, see \<open>packet_ok\<close>), a run followed by
  \<open>clear\<close> closes each registered descriptor exactly once, the loop sleeps to the next deadline. \<open>Service\<close>
  carries this over any sequence of starts and stops, from \<open>onCreate\<close> to \<open>onDestroy\<close>, with the thread
  running in between: the list is freed under the thread only when the write to the pipe failed, a stop
  is answered by the turn the thread is in, and the thread's steps are \<open>handle_events\<close>. The packets written
  are accepted by a receiver that checks lengths and checksums and read back with the session's
  addresses and numbers. The forwarding of a TCP queue refines the sending of a byte stream. The
  parsers (TLS, DNS, TCP options, HTTP) read inside their block, decode what an encoder writes, and
  compute what a reference definition says, or are shown to hang or overrun where they do.

  \<^bold>\<open>Assumptions\<close>, stated where they are used: \<open>send_closed\<close> (a \<open>send\<close> on descriptor -1 fails), \<open>recv_ok\<close>
  (\<open>recv\<close> returns at most what was asked for), \<open>wait_ok\<close> (epoll reports events on descriptors only),
  \<open>clock_mono\<close> (the clock does not go back; for the sleeping time only). An event is dispatched to the
  session that holds the descriptor it was registered with; the code keeps a pointer to it, and
  sessions are only freed between two waits. \<open>sizeof(struct icmp)\<close> is 28. Shifts by 32 or more (a window
  scale beyond what RFC 7323 allows, undefined in C) give 0. A division by \<open>maxsessions = 0\<close>, with a
  descriptor limit below 3, is undefined in C and 0 here. Memory allocation and
  \<open>AttachCurrentThread\<close> succeed; \<open>pthread_kill\<close> finds a thread as long as \<open>thread_id\<close> is not 0.

  \<^bold>\<open>Not modelled.\<close> Of \<open>tun2http.c\<close> the helpers that only call the Java VM (references, classes,
  exceptions) and \<open>protect_socket\<close>, whose answer is \<open>sys_protect\<close>; log messages and the addresses formatted
  for them; the mutex around the dispatch, which nothing else takes; \<open>get_local_port\<close>, \<open>sdk_int\<close>; the timing code under \<open>PROFILE_UID\<close>; the Java
  application beyond the guards of \<open>TunnelService\<close> in \<open>svc_step\<close>.
\<close>

end
